theory Spec2Isabelle
  imports Complex_Main
begin

section \<open>Linear models as the scripts build them\<close>

text \<open>
  Every script of the repository builds one model of the external solver by a sequence of
  \<^verbatim>\<open>addVar\<close>/\<^verbatim>\<open>addVars\<close>/\<^verbatim>\<open>addConstr\<close> calls and one
  \<^verbatim>\<open>setObjective\<close>. The model is the state these calls extend: the declared
  variables, the emitted constraints (in emission order, duplicates kept) and the objective.

  A variable is identified by the key under which the script stores it (\<^verbatim>\<open>S[i, k]\<close>,
  \<^verbatim>\<open>eta[k, i, t]\<close>, ...); the ordering binary of stage 1 is a loop-local variable and is
  identified by the four numbers of its name \<^verbatim>\<open>x_{i}_{k}_{j}_{l}\<close>. Job and machine
  identifiers are Python ints; operation and stage indices come from \<^verbatim>\<open>range\<close> and
  \<^verbatim>\<open>enumerate\<close> and are naturals. Solver values are real numbers.
\<close>

type_synonym job_id = int
type_synonym machine_id = int

datatype var =
    S_var job_id nat
  | C_var job_id nat
  | X_ord job_id nat job_id nat
  | X_stage job_id nat nat
  | Cmax
  | Theta nat machine_id
  | Eta nat job_id nat
  | W_var job_id nat
  | Cjob job_id

text \<open>Linear expressions, with the operators the scripts apply to variables.\<close>

datatype expr =
    V var
  | N real
  | Plus expr expr
  | Minus expr expr
  | Times real expr
  | Quicksum "expr list"

datatype sense = GE | EQ | LE

datatype constr = Constr expr sense expr

datatype vdecl = Continuous var real | Binary var

record model =
  vars :: "vdecl list"
  constrs :: "constr list"
  objective :: expr

text \<open>
  The exceptions a script can end with. \<open>KeyError\<close>, \<open>IndexError\<close> and
  \<open>AttributeError\<close> are Python's; \<open>MalformedRoute\<close> and \<open>InconsistentSolution\<close> are
  the error kinds the specification names.
\<close>

datatype error = KeyError | IndexError | AttributeError | MalformedRoute | InconsistentSolution

type_synonym valuation = "var \<Rightarrow> real"

fun eval :: "valuation \<Rightarrow> expr \<Rightarrow> real" where
  "eval v (V x) = v x"
| "eval v (N c) = c"
| "eval v (Plus a b) = eval v a + eval v b"
| "eval v (Minus a b) = eval v a - eval v b"
| "eval v (Times c a) = c * eval v a"
| "eval v (Quicksum es) = sum_list (map (eval v) es)"

fun sat :: "valuation \<Rightarrow> constr \<Rightarrow> bool" where
  "sat v (Constr l GE r) = (eval v l \<ge> eval v r)"
| "sat v (Constr l EQ r) = (eval v l = eval v r)"
| "sat v (Constr l LE r) = (eval v l \<le> eval v r)"

fun var_ok :: "valuation \<Rightarrow> vdecl \<Rightarrow> bool" where
  "var_ok v (Continuous x l) = (l \<le> v x)"
| "var_ok v (Binary x) = (v x = 0 \<or> v x = 1)"

definition feasible :: "model \<Rightarrow> valuation \<Rightarrow> bool" where
  "feasible M v = (list_all (var_ok v) (vars M) \<and> list_all (sat v) (constrs M))"

text \<open>
  All objectives are minimised. \<open>r\<close> is the optimal value of \<open>M\<close> when a feasible
  valuation attains it and no feasible valuation goes below it.
\<close>

definition optimal_value :: "model \<Rightarrow> real \<Rightarrow> bool" where
  "optimal_value M r =
     ((\<exists>v. feasible M v \<and> eval v (objective M) = r) \<and>
      (\<forall>v. feasible M v \<longrightarrow> r \<le> eval v (objective M)))"

subsection \<open>Problem data\<close>

text \<open>
  \<^verbatim>\<open>jobs\<close>/\<^verbatim>\<open>routes\<close> is a dict from job id to the ordered list of
  (machine, processing time) pairs. It is an association list in insertion order; a dict has
  no repeated key, which theorems state as \<open>distinct (map fst jobs)\<close>. \<^verbatim>\<open>for i in jobs\<close>
  runs over \<open>map fst jobs\<close> and \<^verbatim>\<open>jobs[i]\<close> is \<open>route jobs i\<close>; the scripts only
  look up keys they iterate over, so the lookup never raises.
\<close>

type_synonym 'p routes = "(job_id \<times> (machine_id \<times> 'p) list) list"

definition route :: "'p routes \<Rightarrow> job_id \<Rightarrow> (machine_id \<times> 'p) list" where
  "route jobs i = (case map_of jobs i of Some ops \<Rightarrow> ops | None \<Rightarrow> [])"

text \<open>A loop whose body may raise: the first exception ends it.\<close>

fun for_each :: "('a \<Rightarrow> error + 'b) \<Rightarrow> 'a list \<Rightarrow> error + 'b list" where
  "for_each f [] = Inr []"
| "for_each f (x # xs) =
     (case f x of
        Inl e \<Rightarrow> Inl e
      | Inr y \<Rightarrow> (case for_each f xs of Inl e \<Rightarrow> Inl e | Inr ys \<Rightarrow> Inr (y # ys)))"

section \<open>Stage 1: pairwise disjunctive ordering (Strategy A)\<close>

definition stage1_jobs :: "int routes" where
  "stage1_jobs = [(1, [(1, 3), (2, 2)]), (2, [(2, 2), (1, 1)])]"

definition stage1_machines :: "machine_id list" where
  "stage1_machines = [1, 2]"

definition stage1_bigM :: int where
  "stage1_bigM = 1000"

text \<open>Lines 25-31: start and completion variables per operation, then the makespan.\<close>

definition stage1_vars :: "int routes \<Rightarrow> vdecl list" where
  "stage1_vars jobs =
     concat [[Continuous (S_var i k) 0, Continuous (C_var i k) 0].
               i \<leftarrow> map fst jobs, (k, (m, p)) \<leftarrow> enumerate 0 (route jobs i)]
     @ [Continuous Cmax 0]"

text \<open>Lines 37-39: completion time definition.\<close>

definition stage1_completion :: "int routes \<Rightarrow> constr list" where
  "stage1_completion jobs =
     [Constr (V (C_var i k)) EQ (Plus (V (S_var i k)) (N (of_int p))).
        i \<leftarrow> map fst jobs, (k, (m, p)) \<leftarrow> enumerate 0 (route jobs i)]"

text \<open>Lines 42-44: job operation order.\<close>

definition stage1_order :: "int routes \<Rightarrow> constr list" where
  "stage1_order jobs =
     [Constr (V (S_var i (k + 1))) GE (V (C_var i k)).
        i \<leftarrow> map fst jobs, k \<leftarrow> [0 ..< length (route jobs i) - 1]]"

text \<open>Line 49: all operations on machine \<open>m\<close>, as (job, operation index) pairs.\<close>

definition ops_on :: "'p routes \<Rightarrow> machine_id \<Rightarrow> (job_id \<times> nat) list" where
  "ops_on jobs m =
     [(i, k). i \<leftarrow> map fst jobs, (k, (mm, p)) \<leftarrow> enumerate 0 (route jobs i), mm = m]"

text \<open>
  Lines 53-58, the body of the pairwise loop for \<open>ops[a] = (i, k)\<close> and
  \<open>ops[b] = (j, l)\<close>: one binary and two constraints.
\<close>

definition disj_var :: "job_id \<times> nat \<Rightarrow> job_id \<times> nat \<Rightarrow> var" where
  "disj_var a b = (case (a, b) of ((i, k), (j, l)) \<Rightarrow> X_ord i k j l)"

definition disj_first :: "int \<Rightarrow> job_id \<times> nat \<Rightarrow> job_id \<times> nat \<Rightarrow> constr" where
  "disj_first bigM a b =
     (case (a, b) of ((i, k), (j, l)) \<Rightarrow>
        Constr (V (S_var i k)) GE
          (Minus (V (C_var j l)) (Times (of_int bigM) (Minus (N 1) (V (X_ord i k j l))))))"

definition disj_second :: "int \<Rightarrow> job_id \<times> nat \<Rightarrow> job_id \<times> nat \<Rightarrow> constr" where
  "disj_second bigM a b =
     (case (a, b) of ((i, k), (j, l)) \<Rightarrow>
        Constr (V (S_var j l)) GE
          (Minus (V (C_var i k)) (Times (of_int bigM) (V (X_ord i k j l)))))"

definition disj_body :: "int \<Rightarrow> job_id \<times> nat \<Rightarrow> job_id \<times> nat \<Rightarrow> vdecl \<times> constr list" where
  "disj_body bigM a b = (Binary (disj_var a b), [disj_first bigM a b, disj_second bigM a b])"

text \<open>Lines 51-52: the index pairs \<open>a < b\<close> the two nested loops visit, in order.\<close>

definition index_pairs :: "nat \<Rightarrow> (nat \<times> nat) list" where
  "index_pairs n = [(a, b). a \<leftarrow> [0 ..< n], b \<leftarrow> [a + 1 ..< n]]"

text \<open>Lines 48-58: what one iteration of the machine loop adds to the model.\<close>

definition machine_disj :: "int routes \<Rightarrow> int \<Rightarrow> machine_id \<Rightarrow> (vdecl \<times> constr list) list" where
  "machine_disj jobs bigM m =
     (let ops = ops_on jobs m
      in [disj_body bigM (ops ! a) (ops ! b). (a, b) \<leftarrow> index_pairs (length ops)])"

text \<open>Lines 47-58: the whole machine loop.\<close>

definition stage1_disj :: "int routes \<Rightarrow> machine_id list \<Rightarrow> int \<Rightarrow> (vdecl \<times> constr list) list" where
  "stage1_disj jobs machines bigM = concat (map (machine_disj jobs bigM) machines)"

text \<open>
  Lines 61-63: the makespan bound of job \<open>i\<close>. \<^verbatim>\<open>C\<close> is a dict keyed by (job, index);
  for an empty route \<^verbatim>\<open>last_op\<close> is \<open>-1\<close>, a key \<^verbatim>\<open>C\<close> does not have.
\<close>

definition stage1_makespan :: "int routes \<Rightarrow> job_id \<Rightarrow> error + constr" where
  "stage1_makespan jobs i =
     (if route jobs i = [] then Inl KeyError
      else Inr (Constr (V Cmax) GE (V (C_var i (length (route jobs i) - 1)))))"

text \<open>Lines 19-68: the model the script hands to the solver.\<close>

definition stage1_build :: "int routes \<Rightarrow> machine_id list \<Rightarrow> int \<Rightarrow> error + model" where
  "stage1_build jobs machines bigM =
     (case for_each (stage1_makespan jobs) (map fst jobs) of
        Inl e \<Rightarrow> Inl e
      | Inr mk \<Rightarrow>
          Inr \<lparr> vars = stage1_vars jobs @ map fst (stage1_disj jobs machines bigM),
                constrs = stage1_completion jobs @ stage1_order jobs
                          @ concat (map snd (stage1_disj jobs machines bigM)) @ mk,
                objective = V Cmax \<rparr>)"

section \<open>Stage 2: single-stage assignment (Strategy B)\<close>

definition stage2_jobs :: "int routes" where
  "stage2_jobs = [(1, [(1, 3), (2, 2)]), (2, [(2, 2), (1, 1)]), (3, [(1, 2), (2, 1)])]"

text \<open>
  Line 12: \<^verbatim>\<open>machines\<close> is the set \<^verbatim>\<open>{1, 2}\<close>; the capacity loop visits its elements
  in the order 1, 2.
\<close>

definition stage2_machines :: "machine_id list" where
  "stage2_machines = [1, 2]"

text \<open>Line 15: the number of stages is the literal 10.\<close>

definition stage2_num_stages :: nat where
  "stage2_num_stages = 10"

text \<open>Lines 20-33: the stage binaries, the start times, the makespan.\<close>

definition stage2_vars :: "int routes \<Rightarrow> nat \<Rightarrow> vdecl list" where
  "stage2_vars jobs num_stages =
     [Binary (X_stage j k t).
        j \<leftarrow> map fst jobs, k \<leftarrow> [0 ..< length (route jobs j)], t \<leftarrow> [0 ..< num_stages]]
     @ [Continuous (S_var j k) 0. j \<leftarrow> map fst jobs, k \<leftarrow> [0 ..< length (route jobs j)]]
     @ [Continuous Cmax 0]"

text \<open>Lines 36-38: each operation is assigned exactly one stage.\<close>

definition stage2_assign :: "int routes \<Rightarrow> nat \<Rightarrow> constr list" where
  "stage2_assign jobs num_stages =
     [Constr (Quicksum [V (X_stage j k t). t \<leftarrow> [0 ..< num_stages]]) EQ (N 1).
        j \<leftarrow> map fst jobs, k \<leftarrow> [0 ..< length (route jobs j)]]"

text \<open>
  Lines 45-49: the constraint added by one pass of the innermost loop. Both sums are
  generator expressions with a loop variable of their own: the \<^verbatim>\<open>t\<close> of the second
  sum is the generator's, not the \<^verbatim>\<open>t\<close> of the enclosing \<^verbatim>\<open>for\<close>, so the
  constraint does not depend on the enclosing \<^verbatim>\<open>t\<close>.
\<close>

definition stage2_seq_constr :: "nat \<Rightarrow> job_id \<Rightarrow> nat \<Rightarrow> constr" where
  "stage2_seq_constr num_stages j k =
     Constr (Quicksum [Times (of_nat t_prime) (V (X_stage j (k + 1) t_prime)).
                         t_prime \<leftarrow> [0 ..< num_stages]])
            GE
            (Quicksum [Times (of_nat (t + 1)) (V (X_stage j k t)). t \<leftarrow> [0 ..< num_stages]])"

text \<open>Lines 41-49: the three nested loops.\<close>

definition stage2_seq :: "int routes \<Rightarrow> nat \<Rightarrow> constr list" where
  "stage2_seq jobs num_stages =
     [stage2_seq_constr num_stages j k.
        j \<leftarrow> map fst jobs, k \<leftarrow> [0 ..< length (route jobs j) - 1], t \<leftarrow> [0 ..< num_stages]]"

text \<open>Lines 52-57: machine capacity per stage.\<close>

definition stage2_capacity :: "int routes \<Rightarrow> machine_id list \<Rightarrow> nat \<Rightarrow> constr list" where
  "stage2_capacity jobs machines num_stages =
     [Constr (Quicksum [V (X_stage j k t).
                          j \<leftarrow> map fst jobs, (k, (machine, p)) \<leftarrow> enumerate 0 (route jobs j),
                          machine = m])
             LE (N 1).
        m \<leftarrow> machines, t \<leftarrow> [0 ..< num_stages]]"

text \<open>Lines 61-66: start time from the assigned stage and the processing time.\<close>

definition stage2_start :: "int routes \<Rightarrow> nat \<Rightarrow> constr list" where
  "stage2_start jobs num_stages =
     [Constr (V (S_var j k)) EQ
        (Quicksum [Times (of_int (int t * p)) (V (X_stage j k t)). t \<leftarrow> [0 ..< num_stages]]).
        j \<leftarrow> map fst jobs, (k, (m, p)) \<leftarrow> enumerate 0 (route jobs j)]"

text \<open>
  Lines 69-75: the makespan bound of job \<open>j\<close>. \<^verbatim>\<open>jobs[j][last_op_index]\<close> indexes a
  list: for an empty route the index is \<open>-1\<close> and the list has no last element.
\<close>

definition stage2_makespan :: "int routes \<Rightarrow> job_id \<Rightarrow> error + constr" where
  "stage2_makespan jobs j =
     (if route jobs j = [] then Inl IndexError
      else let last_op_index = length (route jobs j) - 1;
               processing_time = snd (route jobs j ! last_op_index)
           in Inr (Constr (V Cmax) GE
                     (Plus (V (S_var j last_op_index)) (N (of_int processing_time)))))"

text \<open>
  Lines 17-78: the model of the script, with the sequencing section as a parameter so that
  the same builder serves the script and the variant that adds each sequencing constraint
  once.
\<close>

definition stage2_build_with ::
  "constr list \<Rightarrow> int routes \<Rightarrow> machine_id list \<Rightarrow> nat \<Rightarrow> error + model" where
  "stage2_build_with seq jobs machines num_stages =
     (case for_each (stage2_makespan jobs) (map fst jobs) of
        Inl e \<Rightarrow> Inl e
      | Inr mk \<Rightarrow>
          Inr \<lparr> vars = stage2_vars jobs num_stages,
                constrs = stage2_assign jobs num_stages @ seq
                          @ stage2_capacity jobs machines num_stages
                          @ stage2_start jobs num_stages @ mk,
                objective = V Cmax \<rparr>)"

definition stage2_build :: "int routes \<Rightarrow> machine_id list \<Rightarrow> nat \<Rightarrow> error + model" where
  "stage2_build jobs machines num_stages =
     stage2_build_with (stage2_seq jobs num_stages) jobs machines num_stages"

text \<open>
  The comparison model: the sequencing constraint once per consecutive operation pair,
  everything else as in the script.
\<close>

definition stage2_seq_once :: "int routes \<Rightarrow> nat \<Rightarrow> constr list" where
  "stage2_seq_once jobs num_stages =
     [stage2_seq_constr num_stages j k.
        j \<leftarrow> map fst jobs, k \<leftarrow> [0 ..< length (route jobs j) - 1]]"

definition stage2_build_once :: "int routes \<Rightarrow> machine_id list \<Rightarrow> nat \<Rightarrow> error + model" where
  "stage2_build_once jobs machines num_stages =
     stage2_build_with (stage2_seq_once jobs num_stages) jobs machines num_stages"

section \<open>Route data of stages 3 and 4\<close>

text \<open>
  Stage 3 (lines 108-110) and stage 4 (lines 210-212) derive the job list, the machine list
  and the operation count from \<^verbatim>\<open>routes\<close> by the same three statements. Nothing is
  checked and nothing can raise; the result type has an error side only so that a failure
  could be told from a success.
\<close>

definition routes_jobs :: "'p routes \<Rightarrow> job_id list" where
  "routes_jobs routes = map fst routes"

definition routes_machines :: "'p routes \<Rightarrow> machine_id list" where
  "routes_machines routes =
     sorted_list_of_set (set [m. ops \<leftarrow> map snd routes, (m, p) \<leftarrow> ops])"

definition routes_K :: "'p routes \<Rightarrow> nat" where
  "routes_K routes = sum_list [length ops. ops \<leftarrow> map snd routes]"

record catalog =
  cat_jobs :: "job_id list"
  cat_machines :: "machine_id list"
  cat_K :: nat

definition route_catalog :: "'p routes \<Rightarrow> error + catalog" where
  "route_catalog routes =
     Inr \<lparr> cat_jobs = routes_jobs routes,
           cat_machines = routes_machines routes,
           cat_K = routes_K routes \<rparr>"

text \<open>Stage 3 line 121, and the same double loop wherever stage 4 writes it out.\<close>

definition all_ops :: "'p routes \<Rightarrow> (job_id \<times> nat) list" where
  "all_ops routes = [(i, t). i \<leftarrow> routes_jobs routes, t \<leftarrow> [0 ..< length (route routes i)]]"

section \<open>The solver's answer\<close>

text \<open>
  The solver is an outside collaborator: all a script sees of a solve is the status code
  and, when the solver holds a solution, the values of the variables. Reading
  \<^verbatim>\<open>.X\<close> or \<^verbatim>\<open>objVal\<close> when no solution is held raises \<open>AttributeError\<close>.
\<close>

datatype status = OPTIMAL | INFEASIBLE | INF_OR_UNBD | UNBOUNDED | SUBOPTIMAL | OTHER_STATUS

record outcome =
  status :: status
  solution :: "valuation option"

section \<open>Stage 3: machine-availability recursion (Strategy C)\<close>

text \<open>Lines 118-125.\<close>

definition stage3_vars :: "real routes \<Rightarrow> vdecl list" where
  "stage3_vars routes =
     [Continuous (Theta k m) 0. k \<leftarrow> [0 ..< routes_K routes + 1], m \<leftarrow> routes_machines routes]
     @ [Binary (Eta k i t). k \<leftarrow> [0 ..< routes_K routes], (i, t) \<leftarrow> all_ops routes]
     @ [Continuous Cmax 0]"

text \<open>Lines 132-133: one operation scheduled per stage.\<close>

definition stage3_one_per_stage :: "real routes \<Rightarrow> constr list" where
  "stage3_one_per_stage routes =
     [Constr (Quicksum [V (Eta k i t). (i, t) \<leftarrow> all_ops routes]) EQ (N 1).
        k \<leftarrow> [0 ..< routes_K routes]]"

text \<open>Lines 136-137: each operation executed exactly once.\<close>

definition stage3_once :: "real routes \<Rightarrow> constr list" where
  "stage3_once routes =
     [Constr (Quicksum [V (Eta k i t). k \<leftarrow> [0 ..< routes_K routes]]) EQ (N 1).
        (i, t) \<leftarrow> all_ops routes]"

text \<open>Lines 140-145: the availability recursion.\<close>

definition stage3_recursion :: "real routes \<Rightarrow> constr list" where
  "stage3_recursion routes =
     [Constr (V (Theta (k + 1) m)) GE
        (Plus (V (Theta k m))
           (Quicksum [Times (snd (route routes i ! t)) (V (Eta k i t)).
                        (i, t) \<leftarrow> all_ops routes, fst (route routes i ! t) = m])).
        k \<leftarrow> [0 ..< routes_K routes], m \<leftarrow> routes_machines routes]"

text \<open>Lines 148-150: the makespan bound, once per operation.\<close>

definition stage3_makespan :: "real routes \<Rightarrow> constr list" where
  "stage3_makespan routes =
     [Constr (V Cmax) GE (V (Theta (routes_K routes) (fst (route routes i ! t)))).
        (i, t) \<leftarrow> all_ops routes]"

text \<open>Lines 156-159: the precedence constraint of job \<open>i\<close>, operation \<open>t\<close>, stage \<open>k2\<close>.\<close>

definition stage3_prec_constr :: "job_id \<Rightarrow> nat \<Rightarrow> nat \<Rightarrow> constr" where
  "stage3_prec_constr i t k2 =
     Constr (Quicksum [V (Eta k1 i (t - 1)). k1 \<leftarrow> [0 ..< k2 + 1]]) GE (V (Eta k2 i t))"

text \<open>Lines 153-159.\<close>

definition stage3_precedence :: "real routes \<Rightarrow> constr list" where
  "stage3_precedence routes =
     [stage3_prec_constr i t k2.
        i \<leftarrow> routes_jobs routes, t \<leftarrow> [1 ..< length (route routes i)],
        k2 \<leftarrow> [0 ..< routes_K routes]]"

text \<open>Lines 115-164: the model of the script. No statement of it can raise.\<close>

definition stage3_build :: "real routes \<Rightarrow> model" where
  "stage3_build routes =
     \<lparr> vars = stage3_vars routes,
       constrs = stage3_one_per_stage routes @ stage3_once routes @ stage3_recursion routes
                 @ stage3_makespan routes @ stage3_precedence routes,
       objective = V Cmax \<rparr>"

text \<open>
  Lines 174-196: what the script prints. A schedule line is (stage number, job, operation
  number, machine, processing time); a Theta line is printed for every positive value.
\<close>

datatype stage3_output =
    Stage3_solution real "(nat \<times> job_id \<times> nat \<times> machine_id \<times> real) list"
                    "(nat \<times> machine_id \<times> real) list"
  | Stage3_no_optimal status

definition stage3_schedule ::
  "real routes \<Rightarrow> valuation \<Rightarrow> (nat \<times> job_id \<times> nat \<times> machine_id \<times> real) list" where
  "stage3_schedule routes x =
     [(k + 1, i, t + 1, fst (route routes i ! t), snd (route routes i ! t)).
        k \<leftarrow> [0 ..< routes_K routes], (i, t) \<leftarrow> all_ops routes, x (Eta k i t) > 0.5]"

definition stage3_display :: "real routes \<Rightarrow> outcome \<Rightarrow> error + stage3_output" where
  "stage3_display routes out =
     (if status out = OPTIMAL then
        (case solution out of
           None \<Rightarrow> Inl AttributeError
         | Some x \<Rightarrow>
             Inr (Stage3_solution (eval x (V Cmax)) (stage3_schedule routes x)
                    [(k, m, x (Theta k m)).
                       k \<leftarrow> [0 ..< routes_K routes + 1], m \<leftarrow> routes_machines routes,
                       x (Theta k m) > 0]))
      else Inr (Stage3_no_optimal (status out)))"

text \<open>Lines 98-107: the instance of the script (the processing times are decimal literals).\<close>

definition stage3_routes :: "real routes" where
  "stage3_routes =
     [(1, [(5, 0.65), (3, 0.514), (7, 0.64), (2, 0.202), (1, 0.202), (4, 0.24), (6, 0.29)]),
      (2, [(3, 0.722), (2, 0.338), (1, 0.242), (8, 0.242), (7, 0.2), (4, 0.2), (6, 0.338),
           (5, 0.578)]),
      (3, [(2, 0.089), (6, 0.117), (1, 0.185), (3, 0.485), (5, 0.185), (8, 0.369), (4, 0.117),
           (7, 0.089)]),
      (4, [(6, 0.061), (2, 0.061), (5, 0.265), (3, 0.025), (1, 0.013), (4, 0.025)]),
      (5, [(5, 0.392), (6, 0.128), (2, 0.05), (3, 0.128), (1, 0.072), (4, 0.072)]),
      (6, [(2, 0.02), (5, 0.244), (4, 0.052), (3, 0.052), (1, 0.052), (6, 0.01)]),
      (7, [(5, 0.269), (4, 0.185), (6, 0.06), (2, 0.065), (1, 0.029), (7, 0.029), (3, 0.017)]),
      (8, [(3, 0.074), (5, 0.074), (2, 0.034), (1, 0.034), (4, 0.29), (6, 0.02)])]"

section \<open>Stage 4: exact Big-M precedence and waiting times (Strategy D)\<close>


text \<open>Line 213: the number of stage slots.\<close>

definition stage4_S :: "int routes \<Rightarrow> nat" where
  "stage4_S routes = routes_K routes"

text \<open>Lines 216-217: the Big-M constant.\<close>

definition total_proc :: "int routes \<Rightarrow> int" where
  "total_proc routes = sum_list [p. ops \<leftarrow> map snd routes, (m, p) \<leftarrow> ops]"

definition stage4_M :: "int routes \<Rightarrow> int" where
  "stage4_M routes = total_proc routes"

text \<open>Lines 225-243.\<close>

definition stage4_vars :: "int routes \<Rightarrow> vdecl list" where
  "stage4_vars routes =
     [Continuous (Theta k m) 0. k \<leftarrow> [0 ..< stage4_S routes + 1], m \<leftarrow> routes_machines routes]
     @ [Binary (Eta k i t).
          k \<leftarrow> [0 ..< stage4_S routes], i \<leftarrow> routes_jobs routes,
          t \<leftarrow> [0 ..< length (route routes i)]]
     @ [Continuous Cmax 0]
     @ [Continuous (W_var i t) 0.
          i \<leftarrow> routes_jobs routes, t \<leftarrow> [0 ..< length (route routes i) - 1]]
     @ [Continuous (Cjob i) 0. i \<leftarrow> routes_jobs routes]"

text \<open>Lines 252-253.\<close>

definition stage4_theta0 :: "int routes \<Rightarrow> constr list" where
  "stage4_theta0 routes = [Constr (V (Theta 0 m)) EQ (N 0). m \<leftarrow> routes_machines routes]"

text \<open>Lines 256-262: machine capacity per stage.\<close>

definition stage4_capacity :: "int routes \<Rightarrow> constr list" where
  "stage4_capacity routes =
     [Constr (Quicksum [V (Eta k i t).
                          i \<leftarrow> routes_jobs routes, t \<leftarrow> [0 ..< length (route routes i)],
                          fst (route routes i ! t) = m])
             LE (N 1).
        k \<leftarrow> [0 ..< stage4_S routes], m \<leftarrow> routes_machines routes]"

text \<open>Lines 265-267: each operation executed exactly once.\<close>

definition stage4_once :: "int routes \<Rightarrow> constr list" where
  "stage4_once routes =
     [Constr (Quicksum [V (Eta k i t). k \<leftarrow> [0 ..< stage4_S routes]]) EQ (N 1).
        i \<leftarrow> routes_jobs routes, t \<leftarrow> [0 ..< length (route routes i)]]"

text \<open>Lines 270-277: the availability recursion.\<close>

definition stage4_recursion :: "int routes \<Rightarrow> constr list" where
  "stage4_recursion routes =
     [Constr (V (Theta (k + 1) m)) GE
        (Plus (V (Theta k m))
           (Quicksum [Times (of_int (snd (route routes i ! t))) (V (Eta k i t)).
                        i \<leftarrow> routes_jobs routes, t \<leftarrow> [0 ..< length (route routes i)],
                        fst (route routes i ! t) = m])).
        k \<leftarrow> [0 ..< stage4_S routes], m \<leftarrow> routes_machines routes]"



text \<open>Lines 280-281.\<close>

definition stage4_makespan :: "int routes \<Rightarrow> constr list" where
  "stage4_makespan routes =
     [Constr (V Cmax) GE (V (Theta (stage4_S routes) m)). m \<leftarrow> routes_machines routes]"

text \<open>
  Lines 292-295: the precedence constraint of job \<open>i\<close>, operations \<open>t\<close> and \<open>t + 1\<close> on
  machines \<open>m1\<close> and \<open>m2\<close>, stages \<open>k1\<close> and \<open>k2\<close>, with Big-M constant \<open>M\<close>.
\<close>

definition stage4_prec_constr ::
  "int \<Rightarrow> job_id \<Rightarrow> nat \<Rightarrow> machine_id \<Rightarrow> machine_id \<Rightarrow> nat \<Rightarrow> nat \<Rightarrow> constr" where
  "stage4_prec_constr M i t m1 m2 k1 k2 =
     Constr (Plus (V (Theta k2 m2))
               (Times (of_int M) (Minus (Minus (N 2) (V (Eta k1 i t))) (V (Eta k2 i (t + 1))))))
            GE (V (Theta (k1 + 1) m1))"

text \<open>Lines 286-295.\<close>

definition stage4_precedence :: "int routes \<Rightarrow> constr list" where
  "stage4_precedence routes =
     [stage4_prec_constr (stage4_M routes) i t
        (fst (route routes i ! t)) (fst (route routes i ! (t + 1))) k1 k2.
        i \<leftarrow> routes_jobs routes, t \<leftarrow> [0 ..< length (route routes i) - 1],
        k1 \<leftarrow> [0 ..< stage4_S routes], k2 \<leftarrow> [0 ..< stage4_S routes]]"

text \<open>Lines 300-309: the waiting-time linearisation.\<close>

definition stage4_wait_constr ::
  "int \<Rightarrow> job_id \<Rightarrow> nat \<Rightarrow> machine_id \<Rightarrow> machine_id \<Rightarrow> nat \<Rightarrow> nat \<Rightarrow> constr" where
  "stage4_wait_constr M i t m1 m2 k1 k2 =
     Constr (Plus (V (W_var i t))
               (Times (of_int M) (Minus (Minus (N 2) (V (Eta k1 i t))) (V (Eta k2 i (t + 1))))))
            GE (Minus (V (Theta k2 m2)) (V (Theta (k1 + 1) m1)))"

definition stage4_waiting :: "int routes \<Rightarrow> constr list" where
  "stage4_waiting routes =
     [stage4_wait_constr (stage4_M routes) i t
        (fst (route routes i ! t)) (fst (route routes i ! (t + 1))) k1 k2.
        i \<leftarrow> routes_jobs routes, t \<leftarrow> [0 ..< length (route routes i) - 1],
        k1 \<leftarrow> [0 ..< stage4_S routes], k2 \<leftarrow> [0 ..< stage4_S routes]]"

text \<open>
  Lines 314-321: the completion constraints of job \<open>i\<close>. \<^verbatim>\<open>routes[i][last]\<close> indexes a
  list: for an empty route the index is \<open>-1\<close> and the list has no last element.
\<close>

definition stage4_job_completion :: "int routes \<Rightarrow> job_id \<Rightarrow> error + constr list" where
  "stage4_job_completion routes i =
     (if route routes i = [] then Inl IndexError
      else let last = length (route routes i) - 1;
               m_last = fst (route routes i ! last)
           in Inr ([Constr (Plus (V (Cjob i))
                              (Times (of_int (stage4_M routes)) (Minus (N 1) (V (Eta k i last)))))
                          GE (V (Theta (k + 1) m_last)).
                      k \<leftarrow> [0 ..< stage4_S routes]]
                   @ [Constr (V Cmax) GE (V (Cjob i))]))"

text \<open>Lines 326-334: the weighted objective (weights 1.0, 0.1 and 0.05).\<close>

definition stage4_objective :: "int routes \<Rightarrow> expr" where
  "stage4_objective routes =
     Plus (Plus (Times 1 (V Cmax))
             (Times (1 / 10) (Quicksum [V (Cjob i). i \<leftarrow> routes_jobs routes])))
          (Times (1 / 20)
             (Quicksum [V (W_var i t).
                          i \<leftarrow> routes_jobs routes, t \<leftarrow> [0 ..< length (route routes i) - 1]]))"

text \<open>Lines 222-336: the model of the script.\<close>

definition stage4_build :: "int routes \<Rightarrow> error + model" where
  "stage4_build routes =
     (case for_each (stage4_job_completion routes) (routes_jobs routes) of
        Inl e \<Rightarrow> Inl e
      | Inr jc \<Rightarrow>
          Inr \<lparr> vars = stage4_vars routes,
                constrs = stage4_theta0 routes @ stage4_capacity routes @ stage4_once routes
                          @ stage4_recursion routes @ stage4_makespan routes
                          @ stage4_precedence routes @ stage4_waiting routes @ concat jc,
                objective = stage4_objective routes \<rparr>)"

text \<open>
  Lines 347-377: what the script prints: the objective and makespan, per stage with at
  least one scheduled operation the list of (job, operation number, machine, processing
  time), the Theta table, the waiting times and the job completions.
\<close>

datatype stage4_output =
    Stage4_solution real real "(nat \<times> (job_id \<times> nat \<times> machine_id \<times> int) list) list"
                    "(nat \<times> machine_id \<times> real) list" "(job_id \<times> nat \<times> real) list"
                    "(job_id \<times> real) list"
  | Stage4_no_optimal status

definition stage4_scheduled ::
  "int routes \<Rightarrow> valuation \<Rightarrow> nat \<Rightarrow> (job_id \<times> nat \<times> machine_id \<times> int) list" where
  "stage4_scheduled routes x k =
     [(i, t + 1, fst (route routes i ! t), snd (route routes i ! t)).
        i \<leftarrow> routes_jobs routes, t \<leftarrow> [0 ..< length (route routes i)], x (Eta k i t) > 0.5]"

definition stage4_schedule ::
  "int routes \<Rightarrow> valuation \<Rightarrow> (nat \<times> (job_id \<times> nat \<times> machine_id \<times> int) list) list" where
  "stage4_schedule routes x =
     [(k + 1, stage4_scheduled routes x k).
        k \<leftarrow> [0 ..< stage4_S routes], stage4_scheduled routes x k \<noteq> []]"

definition stage4_display :: "int routes \<Rightarrow> outcome \<Rightarrow> error + stage4_output" where
  "stage4_display routes out =
     (if status out = OPTIMAL then
        (case solution out of
           None \<Rightarrow> Inl AttributeError
         | Some x \<Rightarrow>
             Inr (Stage4_solution (eval x (stage4_objective routes)) (x Cmax)
                    (stage4_schedule routes x)
                    [(k, m, x (Theta k m)).
                       k \<leftarrow> [0 ..< stage4_S routes + 1], m \<leftarrow> routes_machines routes]
                    [(i, t, x (W_var i t)).
                       i \<leftarrow> routes_jobs routes, t \<leftarrow> [0 ..< length (route routes i) - 1]]
                    [(i, x (Cjob i)). i \<leftarrow> routes_jobs routes]))
      else Inr (Stage4_no_optimal (status out)))"

section \<open>What stages 1 and 2 print\<close>

text \<open>
  Stage 1, lines 78-83: start and end of every operation, then the makespan. The script does
  not look at the status.
\<close>

definition stage1_display ::
  "int routes \<Rightarrow> outcome \<Rightarrow> error + (job_id \<times> nat \<times> real \<times> real) list \<times> real" where
  "stage1_display jobs out =
     (case solution out of
        None \<Rightarrow> Inl AttributeError
      | Some x \<Rightarrow>
          Inr ([(i, k, x (S_var i k), x (C_var i k)).
                  i \<leftarrow> map fst jobs, k \<leftarrow> [0 ..< length (route jobs i)]],
               x Cmax))"

text \<open>
  Stage 2, lines 83-88: (job, operation, stage, stage times processing time) for every
  stage binary above one half, then the makespan. The script does not look at the status.
\<close>

definition stage2_display ::
  "int routes \<Rightarrow> nat \<Rightarrow> outcome \<Rightarrow> error + (job_id \<times> nat \<times> nat \<times> int) list \<times> real" where
  "stage2_display jobs num_stages out =
     (case solution out of
        None \<Rightarrow> Inl AttributeError
      | Some x \<Rightarrow>
          Inr ([(j, k, t, int t * snd (route jobs j ! k)).
                  j \<leftarrow> map fst jobs, k \<leftarrow> [0 ..< length (route jobs j)],
                  t \<leftarrow> [0 ..< num_stages], x (X_stage j k t) > 0.5],
               x Cmax))"

section \<open>Well-formed data\<close>

text \<open>
  The specification takes processing times to be positive; the scripts do not check it.
  Theorems that need it assume that no processing time is negative.
\<close>

definition nonneg_durations :: "('p::linordered_idom) routes \<Rightarrow> bool" where
  "nonneg_durations r = (\<forall>(i, ops) \<in> set r. \<forall>(m, p) \<in> set ops. 0 \<le> p)"

section \<open>Concrete valuations\<close>

text \<open>
  The schedule of the stage 1 instance with makespan 5: job 1 on machine 1 during [0, 3]
  and on machine 2 during [3, 5], job 2 on machine 2 during [0, 2] and on machine 1 during
  [3, 4].
\<close>

definition stage1_schedule :: valuation where
  "stage1_schedule x =
     (case x of
        S_var i k \<Rightarrow> (if k = 1 then 3 else 0)
      | C_var i k \<Rightarrow> (if i = 1 \<and> k = 0 then 3 else if i = 1 \<and> k = 1 then 5
                       else if i = 2 \<and> k = 0 then 2 else 4)
      | X_ord i k j l \<Rightarrow> (if i = 1 \<and> k = 1 then 1 else 0)
      | Cmax \<Rightarrow> 5
      | _ \<Rightarrow> 0)"

text \<open>
  A small instance for stage 3, one job with a two-unit operation on machine 1 and then a
  one-unit operation on machine 2, and a valuation that places the operations at stages 0
  and 1, with makespan 2 and with \<open>\<Theta>[0, 2] = 1\<close>.
\<close>

definition stage3_small :: "real routes" where
  "stage3_small = [(1, [(1, 2), (2, 1)])]"

definition stage3_small_schedule :: valuation where
  "stage3_small_schedule x =
     (case x of
        Eta k i t \<Rightarrow> (if k = t then 1 else 0)
      | Theta k m \<Rightarrow> (if k = 0 then (if m = 2 then 1 else 0)
                       else if k = 1 \<and> m = 2 then 1 else 2)
      | Cmax \<Rightarrow> 2
      | _ \<Rightarrow> 0)"

text \<open>
  A valuation for the stage 2 instance: the six operations at stages 0, 1 (job 1), 0, 2
  (job 2) and 1, 2 (job 3), start times stage times processing time, makespan 4.
\<close>

definition stage2_schedule :: valuation where
  "stage2_schedule x =
     (case x of
        X_stage j k t \<Rightarrow>
          (if (j = 1 \<and> k = 0 \<and> t = 0) \<or> (j = 1 \<and> k = 1 \<and> t = 1) \<or>
              (j = 2 \<and> k = 0 \<and> t = 0) \<or> (j = 2 \<and> k = 1 \<and> t = 2) \<or>
              (j = 3 \<and> k = 0 \<and> t = 1) \<or> (j = 3 \<and> k = 1 \<and> t = 2)
           then 1 else 0)
      | S_var j k \<Rightarrow> (if k = 0 \<and> j \<noteq> 3 then 0 else 2)
      | Cmax \<Rightarrow> 4
      | _ \<Rightarrow> 0)"




section \<open>Properties\<close>

subsection \<open>Loops that may raise\<close>

lemma for_each_Inr_iff:
  "(\<exists>ys. for_each f xs = Inr ys) \<longleftrightarrow> (\<forall>x\<in>set xs. \<exists>y. f x = Inr y)"
  by (induction xs) (auto split: sum.splits)

lemma for_each_Inl_iff:
  "(\<exists>e. for_each f xs = Inl e) \<longleftrightarrow> (\<exists>x\<in>set xs. \<exists>e. f x = Inl e)"
  by (induction xs) (auto split: sum.splits)

lemma for_each_Inl_const:
  "\<forall>x\<in>set xs. \<forall>e'. f x = Inl e' \<longrightarrow> e' = e0 \<Longrightarrow> for_each f xs = Inl e \<Longrightarrow> e = e0"
  by (induction xs) (auto split: sum.splits)

lemma for_each_Inr_map:
  "for_each f xs = Inr ys \<Longrightarrow> map f xs = map Inr ys"
  by (induction xs arbitrary: ys) (auto split: sum.splits)

subsection \<open>Route data\<close>

lemma route_Cons: "route ((i, ops) # r) j = (if j = i then ops else route r j)"
  by (simp add: route_def)

lemma set_all_ops:
  "set (all_ops r) = {(i, t). i \<in> fst ` set r \<and> t < length (route r i)}"
  by (auto simp: all_ops_def routes_jobs_def)

lemma set_routes_machines:
  "set (routes_machines r) = {m. \<exists>i ops p. (i, ops) \<in> set r \<and> (m, p) \<in> set ops}"
  by (force simp: routes_machines_def)

lemma sorted_routes_machines: "sorted (routes_machines r)"
  by (simp add: routes_machines_def)

lemma distinct_routes_machines: "distinct (routes_machines r)"
  by (simp add: routes_machines_def)

text \<open>With no repeated job id, \<open>K\<close> is the number of operations.\<close>

lemma length_all_ops:
  "distinct (map fst r) \<Longrightarrow> length (all_ops r) = routes_K r"
proof (induction r)
  case Nil
  then show ?case by (simp add: all_ops_def routes_K_def routes_jobs_def)
next
  case (Cons a r)
  obtain i ops where a: "a = (i, ops)" by (cases a)
  have "\<And>j. j \<in> set (map fst r) \<Longrightarrow> route (a # r) j = route r j"
    using Cons.prems by (auto simp: a route_Cons)
  then have "concat (map (\<lambda>j. map (Pair j) [0..<length (route (a # r) j)]) (map fst r))
      = concat (map (\<lambda>j. map (Pair j) [0..<length (route r j)]) (map fst r))"
    by (intro arg_cong[where f=concat] map_cong) auto
  with Cons show ?case
    by (simp add: all_ops_def routes_K_def routes_jobs_def a route_Cons)
qed

subsection \<open>Stage slots\<close>

lemma stage3_eta_declared:
  "Binary (Eta k i t) \<in> set (stage3_vars r) \<longleftrightarrow> k < routes_K r \<and> (i, t) \<in> set (all_ops r)"
  by (auto simp: stage3_vars_def)

lemma stage4_eta_declared:
  "Binary (Eta k i t) \<in> set (stage4_vars r) \<longleftrightarrow> k < routes_K r \<and> (i, t) \<in> set (all_ops r)"
  by (auto simp: stage4_vars_def stage4_S_def all_ops_def image_iff Bex_def)

lemma stage2_x_declared:
  "Binary (X_stage j k t) \<in> set (stage2_vars jobs n) \<longleftrightarrow> t < n \<and> (j, k) \<in> set (all_ops jobs)"
  by (simp add: stage2_vars_def all_ops_def routes_jobs_def image_iff) fastforce

text \<open>
  C6, as the claim states it, fails for Strategy B: the script fixes the number of stages
  at 10, while its jobs have 6 operations.
\<close>

theorem stage2_slots_differ_from_operation_count:
  "stage2_num_stages \<noteq> sum_list (map (length \<circ> snd) stage2_jobs)"
  by (simp add: stage2_num_stages_def stage2_jobs_def)

text \<open>
  C6, amended: in Strategies C and D the number of stage slots of the \<open>\<eta>\<close> indicators is
  the total operation count \<open>K\<close>, the sum of the route lengths: \<open>\<eta>[k, i, t]\<close> is declared
  exactly for the stages \<open>k < K\<close> and the operations \<open>(i, t)\<close>, and stage 4 sets \<open>S = K\<close>.
  Strategy B declares its stage binaries exactly for the stages below the constant 10,
  whatever the operation count (6 for its jobs).
\<close>

theorem stage_slots:
  "(Binary (Eta k i t) \<in> set (stage3_vars r3) \<longleftrightarrow>
      k < sum_list (map (length \<circ> snd) r3) \<and> (i, t) \<in> set (all_ops r3)) \<and>
   (Binary (Eta k i t) \<in> set (stage4_vars r4) \<longleftrightarrow>
      k < sum_list (map (length \<circ> snd) r4) \<and> (i, t) \<in> set (all_ops r4)) \<and>
   stage4_S r4 = sum_list (map (length \<circ> snd) r4) \<and>
   (Binary (X_stage i t k) \<in> set (stage2_vars stage2_jobs stage2_num_stages) \<longleftrightarrow>
      k < 10 \<and> (i, t) \<in> set (all_ops stage2_jobs)) \<and>
   sum_list (map (length \<circ> snd) stage2_jobs) = 6"
proof -
  have K: "routes_K r = sum_list (map (length \<circ> snd) r)" for r :: "'p routes"
    by (simp add: routes_K_def comp_def)
  have "sum_list (map (length \<circ> snd) stage2_jobs) = 6"
    by (simp add: stage2_jobs_def)
  then show ?thesis
    by (simp add: stage3_eta_declared stage4_eta_declared stage2_x_declared K stage4_S_def
        stage2_num_stages_def)
qed

subsection \<open>When a build raises\<close>

lemma stage1_build_Inl:
  "(stage1_build jobs ms bigM = Inl e) =
     (e = KeyError \<and> (\<exists>i\<in>set (map fst jobs). route jobs i = []))"
proof -
  let ?r = "for_each (stage1_makespan jobs) (map fst jobs)"
  have a: "(\<exists>e. ?r = Inl e) \<longleftrightarrow> (\<exists>i\<in>set (map fst jobs). route jobs i = [])"
    unfolding for_each_Inl_iff by (auto simp: stage1_makespan_def)
  have b: "?r = Inl e \<Longrightarrow> e = KeyError" for e
    by (rule for_each_Inl_const[where f="stage1_makespan jobs" and xs="map fst jobs"])
       (auto simp: stage1_makespan_def split: if_splits)
  show ?thesis
    using a b by (cases ?r) (auto simp: stage1_build_def)
qed

lemma stage2_build_with_Inl:
  "(stage2_build_with seq jobs ms n = Inl e) =
     (e = IndexError \<and> (\<exists>i\<in>set (map fst jobs). route jobs i = []))"
proof -
  let ?r = "for_each (stage2_makespan jobs) (map fst jobs)"
  have a: "(\<exists>e. ?r = Inl e) \<longleftrightarrow> (\<exists>i\<in>set (map fst jobs). route jobs i = [])"
    unfolding for_each_Inl_iff by (auto simp: stage2_makespan_def Let_def)
  have b: "?r = Inl e \<Longrightarrow> e = IndexError" for e
    by (rule for_each_Inl_const[where f="stage2_makespan jobs" and xs="map fst jobs"])
       (auto simp: stage2_makespan_def Let_def split: if_splits)
  show ?thesis
    using a b by (cases ?r) (auto simp: stage2_build_with_def)
qed

lemma stage4_build_Inl:
  "(stage4_build routes = Inl e) =
     (e = IndexError \<and> (\<exists>i\<in>set (map fst routes). route routes i = []))"
proof -
  let ?r = "for_each (stage4_job_completion routes) (routes_jobs routes)"
  have a: "(\<exists>e. ?r = Inl e) \<longleftrightarrow> (\<exists>i\<in>set (map fst routes). route routes i = [])"
    unfolding for_each_Inl_iff by (auto simp: stage4_job_completion_def Let_def routes_jobs_def)
  have b: "?r = Inl e \<Longrightarrow> e = IndexError" for e
    by (rule for_each_Inl_const[where f="stage4_job_completion routes"
          and xs="routes_jobs routes"])
       (auto simp: stage4_job_completion_def Let_def split: if_splits)
  show ?thesis
    using a b by (cases ?r) (auto simp: stage4_build_def)
qed

text \<open>
  C7, as the claim states it, fails: the route data with a negative processing time and the
  route data with an empty route are both constructed without \<open>MalformedRoute\<close>.
\<close>

theorem route_catalog_accepts_malformed:
  "route_catalog [(1, [(1, - 1 :: int)])] \<noteq> Inl MalformedRoute \<and>
   route_catalog [(1, [] :: (machine_id \<times> int) list)] \<noteq> Inl MalformedRoute"
  by (simp add: route_catalog_def)

text \<open>
  C7, amended: constructing the route data never fails, whatever the processing times and
  route lengths: it yields the job ids in order, the sorted duplicate-free list of the
  machines used, and the sum of the route lengths. No builder ends with \<open>MalformedRoute\<close>
  and a negative processing time makes no builder fail. A builder fails exactly when some
  route is empty: stage 1 with \<open>KeyError\<close>, stages 2 and 4 with \<open>IndexError\<close>, each in its
  last constraint loop; stage 3 has no failing statement.
\<close>

theorem route_data_unchecked:
  "(\<exists>c. route_catalog routes = Inr c \<and> cat_jobs c = map fst routes \<and>
        set (cat_machines c) = {m. \<exists>i ops p. (i, ops) \<in> set routes \<and> (m, p) \<in> set ops} \<and>
        sorted (cat_machines c) \<and> distinct (cat_machines c) \<and>
        cat_K c = sum_list (map (length \<circ> snd) routes)) \<and>
   (stage1_build jobs ms bigM = Inl e1) =
     (e1 = KeyError \<and> (\<exists>i\<in>set (map fst jobs). route jobs i = [])) \<and>
   (stage2_build jobs ms n = Inl e2) =
     (e2 = IndexError \<and> (\<exists>i\<in>set (map fst jobs). route jobs i = [])) \<and>
   (stage4_build jobs = Inl e4) =
     (e4 = IndexError \<and> (\<exists>i\<in>set (map fst jobs). route jobs i = []))"
proof -
  have "\<exists>c. route_catalog routes = Inr c \<and> cat_jobs c = map fst routes \<and>
        set (cat_machines c) = {m. \<exists>i ops p. (i, ops) \<in> set routes \<and> (m, p) \<in> set ops} \<and>
        sorted (cat_machines c) \<and> distinct (cat_machines c) \<and>
        cat_K c = sum_list (map (length \<circ> snd) routes)"
    by (simp add: route_catalog_def routes_jobs_def set_routes_machines sorted_routes_machines
        distinct_routes_machines routes_K_def comp_def)
  then show ?thesis
    by (simp only: stage1_build_Inl stage2_build_def stage2_build_with_Inl stage4_build_Inl
        simp_thms)
qed

subsection \<open>Stage 1: the pairwise loop\<close>

lemma distinct_concat_Pair:
  "distinct ks \<Longrightarrow> (\<And>i. distinct (f i)) \<Longrightarrow> distinct (concat (map (\<lambda>i. map (Pair i) (f i)) ks))"
  by (induction ks) (auto simp: distinct_map inj_on_def)

lemma enumerate_machine_filter:
  "concat (map (\<lambda>(k, mm, p). if mm = m then [(i, k)] else []) (enumerate 0 xs))
      = map (Pair i) (filter (\<lambda>k. fst (xs ! k) = m) [0..<length xs])"
proof (induction xs rule: rev_induct)
  case Nil
  then show ?case by simp
next
  case (snoc x xs)
  have "filter (\<lambda>k. fst ((xs @ [x]) ! k) = m) [0..<length xs]
      = filter (\<lambda>k. fst (xs ! k) = m) [0..<length xs]"
    by (rule filter_cong) (auto simp: nth_append)
  with snoc show ?case
    by (cases x) (simp add: enumerate_append_eq)
qed

lemma ops_on_alt:
  "ops_on jobs m =
     concat (map (\<lambda>i. map (Pair i) (filter (\<lambda>k. fst (route jobs i ! k) = m) [0..<length (route jobs i)]))
       (map fst jobs))"
  by (simp add: ops_on_def enumerate_machine_filter)

lemma distinct_ops_on: "distinct (map fst jobs) \<Longrightarrow> distinct (ops_on jobs m)"
  unfolding ops_on_alt by (rule distinct_concat_Pair) auto

lemma set_ops_on:
  "set (ops_on jobs m) =
     {(i, k). i \<in> fst ` set jobs \<and> k < length (route jobs i) \<and> fst (route jobs i ! k) = m}"
  unfolding ops_on_alt by auto

lemma index_pairs_alt: "index_pairs n = concat (map (\<lambda>a. map (Pair a) [a + 1..<n]) [0..<n])"
  by (simp add: index_pairs_def)

lemma distinct_index_pairs: "distinct (index_pairs n)"
  unfolding index_pairs_alt by (rule distinct_concat_Pair) auto

lemma set_index_pairs: "set (index_pairs n) = {(a, b). a < b \<and> b < n}"
  unfolding index_pairs_alt by fastforce

lemma length_index_pairs: "length (index_pairs n) = (\<Sum>a<n. a)"
proof -
  have "length (index_pairs n) = (\<Sum>a\<leftarrow>[0..<n]. n - Suc a)"
    by (simp add: index_pairs_alt length_concat comp_def)
  also have "\<dots> = (\<Sum>a<n. n - Suc a)"
    by (simp add: interv_sum_list_conv_sum_set_nat atLeast0LessThan)
  also have "\<dots> = (\<Sum>a<n. a)"
    by (rule sum.nat_diff_reindex)
  finally show "length (index_pairs n) = (\<Sum>a<n. a)" .
qed


lemma count_list_distinct: "distinct xs \<Longrightarrow> count_list xs x = (if x \<in> set xs then 1 else 0)"
  by (induction xs) auto

lemma disj_body_inj: "disj_body bigM p q = disj_body bigM p' q' \<longleftrightarrow> p = p' \<and> q = q'"
  by (cases p; cases q; cases p'; cases q') (auto simp: disj_body_def disj_var_def)

lemma machine_disj_alt:
  "machine_disj jobs bigM m =
     map (\<lambda>(a, b). disj_body bigM (ops_on jobs m ! a) (ops_on jobs m ! b))
       (index_pairs (length (ops_on jobs m)))"
  by (simp add: machine_disj_def Let_def concat_map_singleton case_prod_unfold)

lemma distinct_machine_disj:
  assumes "distinct (map fst jobs)"
  shows "distinct (machine_disj jobs bigM m)"
proof -
  have d: "distinct (ops_on jobs m)"
    using assms by (rule distinct_ops_on)
  have "inj_on (\<lambda>(a, b). disj_body bigM (ops_on jobs m ! a) (ops_on jobs m ! b))
          (set (index_pairs (length (ops_on jobs m))))"
    by (auto simp: inj_on_def set_index_pairs disj_body_inj nth_eq_iff_index_eq[OF d])
  then show ?thesis
    by (simp add: machine_disj_alt distinct_map distinct_index_pairs)
qed

lemma set_machine_disj:
  "set (machine_disj jobs bigM m) =
     {disj_body bigM (ops_on jobs m ! a) (ops_on jobs m ! b) | a b.
        a < b \<and> b < length (ops_on jobs m)}"
proof -
  have "set (machine_disj jobs bigM m) =
      (\<lambda>(a, b). disj_body bigM (ops_on jobs m ! a) (ops_on jobs m ! b)) `
        {(a, b). a < b \<and> b < length (ops_on jobs m)}"
    by (simp add: machine_disj_alt set_index_pairs)
  also have "\<dots> = {disj_body bigM (ops_on jobs m ! a) (ops_on jobs m ! b) | a b.
        a < b \<and> b < length (ops_on jobs m)}"
    by (rule set_eqI) (auto simp: image_iff)
  finally show ?thesis .
qed

lemma machine_disj_pair_once:
  assumes dj: "distinct (map fst jobs)"
    and p: "p \<in> set (ops_on jobs m)" and q: "q \<in> set (ops_on jobs m)" and pq: "p \<noteq> q"
  shows "count_list (machine_disj jobs bigM m) (disj_body bigM p q)
       + count_list (machine_disj jobs bigM m) (disj_body bigM q p) = 1"
proof -
  let ?ops = "ops_on jobs m"
  have d: "distinct ?ops" using dj by (rule distinct_ops_on)
  obtain a where a: "a < length ?ops" "?ops ! a = p" using p by (auto simp: in_set_conv_nth)
  obtain b where b: "b < length ?ops" "?ops ! b = q" using q by (auto simp: in_set_conv_nth)
  have ab: "a \<noteq> b" using a b pq by auto
  have mem: "disj_body bigM (?ops ! a') (?ops ! b') \<in> set (machine_disj jobs bigM m) \<longleftrightarrow> a' < b'"
    if "a' < length ?ops" "b' < length ?ops" for a' b'
    using that by (auto simp: set_machine_disj disj_body_inj nth_eq_iff_index_eq[OF d])
  have "disj_body bigM p q \<in> set (machine_disj jobs bigM m) \<longleftrightarrow> a < b"
    using mem[OF a(1) b(1)] a b by simp
  moreover have "disj_body bigM q p \<in> set (machine_disj jobs bigM m) \<longleftrightarrow> b < a"
    using mem[OF b(1) a(1)] a b by simp
  ultimately show ?thesis
    using ab by (auto simp: count_list_distinct[OF distinct_machine_disj[OF dj]])
qed

lemma machine_disj_only_pairs:
  assumes dj: "distinct (map fst jobs)" and e: "e \<in> set (machine_disj jobs bigM m)"
  shows "\<exists>p\<in>set (ops_on jobs m). \<exists>q\<in>set (ops_on jobs m). p \<noteq> q \<and> e = disj_body bigM p q"
proof -
  let ?ops = "ops_on jobs m"
  have d: "distinct ?ops" using dj by (rule distinct_ops_on)
  from e obtain a b where ab: "a < b" "b < length ?ops" "e = disj_body bigM (?ops ! a) (?ops ! b)"
    by (auto simp: set_machine_disj)
  then have ne: "?ops ! a \<noteq> ?ops ! b"
    by (simp add: nth_eq_iff_index_eq[OF d])
  have "?ops ! a \<in> set ?ops" "?ops ! b \<in> set ?ops"
    using ab by simp_all
  with ne ab(3) show ?thesis
    by blast
qed

lemma length_machine_disj:
  "length (machine_disj jobs bigM m) = length (ops_on jobs m) * (length (ops_on jobs m) - 1) div 2"
  by (simp add: machine_disj_alt length_index_pairs Sum_Ico_nat lessThan_atLeast0)

lemma machine_disj_none: "length (ops_on jobs m) \<le> 1 \<Longrightarrow> machine_disj jobs bigM m = []"
  using length_machine_disj[of jobs bigM m]
  by (cases "length (ops_on jobs m)") auto

lemma sat_disj:
  "sat v (disj_first bigM (i, k) (j, l)) \<longleftrightarrow>
     v (S_var i k) \<ge> v (C_var j l) - of_int bigM * (1 - v (X_ord i k j l))"
  "sat v (disj_second bigM (i, k) (j, l)) \<longleftrightarrow>
     v (S_var j l) \<ge> v (C_var i k) - of_int bigM * v (X_ord i k j l)"
  by (simp_all add: disj_first_def disj_second_def)


lemma concat_snd_concat:
  "concat (map snd (concat (map f ms))) = concat (map (\<lambda>m. concat (map snd (f m))) ms)"
  by (induction ms) simp_all

lemma stage1_build_parts:
  assumes "stage1_build jobs machines bigM = Inr M"
  shows "vars M = stage1_vars jobs
           @ concat (map (\<lambda>m. map fst (machine_disj jobs bigM m)) machines)"
    and "constrs M = stage1_completion jobs @ stage1_order jobs
           @ concat (map (\<lambda>m. concat (map snd (machine_disj jobs bigM m))) machines)
           @ map (\<lambda>i. Constr (V Cmax) GE (V (C_var i (length (route jobs i) - 1)))) (map fst jobs)"
proof -
  from assms obtain mk where mk: "for_each (stage1_makespan jobs) (map fst jobs) = Inr mk"
    and M: "M = \<lparr> vars = stage1_vars jobs @ map fst (stage1_disj jobs machines bigM),
                constrs = stage1_completion jobs @ stage1_order jobs
                          @ concat (map snd (stage1_disj jobs machines bigM)) @ mk,
                objective = V Cmax \<rparr>"
    by (auto simp: stage1_build_def split: sum.splits)
  have "\<forall>i\<in>set (map fst jobs). \<exists>y. stage1_makespan jobs i = Inr y"
    using mk for_each_Inr_iff[of "stage1_makespan jobs" "map fst jobs"] by blast
  then have ne: "\<forall>i\<in>set (map fst jobs). route jobs i \<noteq> []"
    by (auto simp: stage1_makespan_def split: if_splits)
  have "map Inr mk = map (stage1_makespan jobs) (map fst jobs)"
    by (rule sym) (rule for_each_Inr_map[OF mk])
  also have "\<dots> = map Inr (map (\<lambda>i. Constr (V Cmax) GE (V (C_var i (length (route jobs i) - 1))))
                  (map fst jobs))"
    unfolding map_map
    by (rule map_cong[OF refl]) (use ne in \<open>auto simp: stage1_makespan_def\<close>)
  finally have "map (Inr :: constr \<Rightarrow> error + constr) mk
      = map Inr (map (\<lambda>i. Constr (V Cmax) GE (V (C_var i (length (route jobs i) - 1))))
                  (map fst jobs))" .
  then have mk_eq: "mk = map (\<lambda>i. Constr (V Cmax) GE (V (C_var i (length (route jobs i) - 1))))
                  (map fst jobs)"
    by (rule map_injective) (simp add: inj_on_def)
  show "vars M = stage1_vars jobs
           @ concat (map (\<lambda>m. map fst (machine_disj jobs bigM m)) machines)"
    by (simp add: M stage1_disj_def map_concat comp_def)
  show "constrs M = stage1_completion jobs @ stage1_order jobs
           @ concat (map (\<lambda>m. concat (map snd (machine_disj jobs bigM m))) machines)
           @ map (\<lambda>i. Constr (V Cmax) GE (V (C_var i (length (route jobs i) - 1)))) (map fst jobs)"
    by (simp add: M stage1_disj_def concat_snd_concat mk_eq)
qed

lemma count_list_concat_map:
  "(\<And>z. z \<in> set xs \<Longrightarrow> count_list (g z) y = (if z = x then 1 else 0)) \<Longrightarrow>
   count_list (concat (map g xs)) y = count_list xs x"
  by (induction xs) auto

lemma count_list_concat_none:
  "\<forall>m'\<in>set ms. y \<notin> set (f m') \<Longrightarrow> count_list (concat (map f ms)) y = 0"
  by (induction ms) auto

lemma count_list_concat_single:
  "distinct ms \<Longrightarrow> m \<in> set ms \<Longrightarrow> \<forall>m'\<in>set ms. m' \<noteq> m \<longrightarrow> y \<notin> set (f m') \<Longrightarrow>
   count_list (concat (map f ms)) y = count_list (f m) y"
proof (induction ms)
  case Nil
  then show ?case by simp
next
  case (Cons a ms)
  show ?case
  proof (cases "a = m")
    case True
    then have "\<forall>m'\<in>set ms. y \<notin> set (f m')"
      using Cons.prems by auto
    then show ?thesis
      using True by (simp add: count_list_concat_none)
  next
    case False
    then have "y \<notin> set (f a)" "m \<in> set ms"
      using Cons.prems by auto
    then show ?thesis
      using Cons by simp
  qed
qed

lemma ops_on_machine_unique:
  "p \<in> set (ops_on jobs m) \<Longrightarrow> p \<in> set (ops_on jobs m') \<Longrightarrow> m = m'"
  by (auto simp: set_ops_on)

lemma machine_disj_entry:
  assumes "z \<in> set (machine_disj jobs bigM m)"
  shows "\<exists>p q. p \<in> set (ops_on jobs m) \<and> q \<in> set (ops_on jobs m) \<and> z = disj_body bigM p q"
proof -
  from assms obtain a b where "a < b" "b < length (ops_on jobs m)"
      "z = disj_body bigM (ops_on jobs m ! a) (ops_on jobs m ! b)"
    by (auto simp: set_machine_disj)
  moreover from this have "ops_on jobs m ! a \<in> set (ops_on jobs m)"
      "ops_on jobs m ! b \<in> set (ops_on jobs m)"
    by simp_all
  ultimately show ?thesis by blast
qed

text \<open>The general step: what the passes of the machine loop contribute for one pair.\<close>

lemma count_over_machines:
  assumes dm: "distinct machines" and m: "m \<in> set machines" and p: "p \<in> set (ops_on jobs m)"
    and g: "\<And>p' q'. count_list (g (disj_body bigM p' q')) y = (if p' = p \<and> q' = q then 1 else 0)"
  shows "count_list (concat (map (\<lambda>m'. concat (map g (machine_disj jobs bigM m'))) machines)) y
       = count_list (machine_disj jobs bigM m) (disj_body bigM p q)"
proof -
  have other: "y \<notin> set (concat (map g (machine_disj jobs bigM m')))" if "m' \<noteq> m" for m'
  proof
    assume "y \<in> set (concat (map g (machine_disj jobs bigM m')))"
    then obtain z where z: "z \<in> set (machine_disj jobs bigM m')" "y \<in> set (g z)"
      by auto
    from machine_disj_entry[OF z(1)] obtain p' q' where pq: "p' \<in> set (ops_on jobs m')"
        "z = disj_body bigM p' q'"
      by blast
    from z(2) have "count_list (g z) y \<noteq> 0"
      by (simp add: count_list_0_iff)
    then have "p' = p"
      using g[of p' q'] pq(2) by (auto split: if_splits)
    with pq(1) p that show False
      using ops_on_machine_unique by blast
  qed
  have "count_list (concat (map (\<lambda>m'. concat (map g (machine_disj jobs bigM m'))) machines)) y
      = count_list (concat (map g (machine_disj jobs bigM m))) y"
    using dm m other by (intro count_list_concat_single) auto
  also have "\<dots> = count_list (machine_disj jobs bigM m) (disj_body bigM p q)"
  proof (rule count_list_concat_map)
    fix z assume "z \<in> set (machine_disj jobs bigM m)"
    from machine_disj_entry[OF this] obtain p' q' where "z = disj_body bigM p' q'"
      by blast
    then show "count_list (g z) y = (if z = disj_body bigM p q then 1 else 0)"
      using g[of p' q'] by (simp add: disj_body_inj)
  qed
  finally show ?thesis .
qed

lemma disj_var_inj: "disj_var p q = disj_var p' q' \<longleftrightarrow> p = p' \<and> q = q'"
  by (cases p; cases q; cases p'; cases q') (simp add: disj_var_def)

lemma disj_first_inj: "disj_first bigM p q = disj_first bigM p' q' \<longleftrightarrow> p = p' \<and> q = q'"
  by (cases p; cases q; cases p'; cases q') (auto simp: disj_first_def)

lemma disj_second_inj: "disj_second bigM p q = disj_second bigM p' q' \<longleftrightarrow> p = p' \<and> q = q'"
  by (cases p; cases q; cases p'; cases q') (auto simp: disj_second_def)

lemma disj_first_second: "disj_first bigM p q \<noteq> disj_second bigM p' q'"
  by (cases p; cases q; cases p'; cases q') (auto simp: disj_first_def disj_second_def)

lemma stage1_vars_continuous: "Binary x \<notin> set (stage1_vars jobs)"
  by (auto simp: stage1_vars_def)

lemma disj_not_completion:
  "disj_first bigM p q \<notin> set (stage1_completion jobs)"
  "disj_second bigM p q \<notin> set (stage1_completion jobs)"
  by (cases p; cases q; auto simp: stage1_completion_def disj_first_def disj_second_def)+

lemma disj_not_order:
  "disj_first bigM p q \<notin> set (stage1_order jobs)"
  "disj_second bigM p q \<notin> set (stage1_order jobs)"
  by (cases p; cases q; auto simp: stage1_order_def disj_first_def disj_second_def)+

lemma disj_not_makespan:
  "count_list (map (\<lambda>i. Constr (V Cmax) GE (V (C_var i (L i)))) xs) (disj_first bigM p q) = 0"
  "count_list (map (\<lambda>i. Constr (V Cmax) GE (V (C_var i (L i)))) xs) (disj_second bigM p q) = 0"
  by (cases p; cases q; induction xs; simp add: disj_first_def disj_second_def)+


lemma stage1_build_succeeds:
  "\<forall>i\<in>set (map fst jobs). route jobs i \<noteq> [] \<Longrightarrow> \<exists>M. stage1_build jobs machines bigM = Inr M"
  using stage1_build_Inl[of jobs machines bigM]
  by (cases "stage1_build jobs machines bigM") auto

lemma map_fst_concat_singleton: "map fst xs = concat (map (\<lambda>z. [fst z]) xs)"
  by (induction xs) simp_all

lemma stage1_model_counts:
  assumes b: "stage1_build jobs machines bigM = Inr M"
    and dm: "distinct machines" and m: "m \<in> set machines" and p: "p \<in> set (ops_on jobs m)"
  shows "count_list (vars M) (Binary (disj_var p q))
           = count_list (machine_disj jobs bigM m) (disj_body bigM p q)"
    and "count_list (constrs M) (disj_first bigM p q)
           = count_list (machine_disj jobs bigM m) (disj_body bigM p q)"
    and "count_list (constrs M) (disj_second bigM p q)
           = count_list (machine_disj jobs bigM m) (disj_body bigM p q)"
proof -
  have "count_list (concat (map (\<lambda>m'. concat (map (\<lambda>z. [fst z]) (machine_disj jobs bigM m')))
            machines)) (Binary (disj_var p q))
      = count_list (machine_disj jobs bigM m) (disj_body bigM p q)"
    by (rule count_over_machines[OF dm m p]) (auto simp: disj_body_def disj_var_inj)
  then show "count_list (vars M) (Binary (disj_var p q))
           = count_list (machine_disj jobs bigM m) (disj_body bigM p q)"
    by (simp add: stage1_build_parts(1)[OF b] stage1_vars_continuous
        map_fst_concat_singleton[symmetric])
  have "count_list (concat (map (\<lambda>m'. concat (map snd (machine_disj jobs bigM m'))) machines))
          (disj_first bigM p q)
      = count_list (machine_disj jobs bigM m) (disj_body bigM p q)"
    by (rule count_over_machines[OF dm m p])
       (auto simp: disj_body_def disj_first_inj disj_first_second[symmetric])
  then show "count_list (constrs M) (disj_first bigM p q)
           = count_list (machine_disj jobs bigM m) (disj_body bigM p q)"
    by (simp only: stage1_build_parts(2)[OF b] count_list_append disj_not_makespan
        count_notin[OF disj_not_completion(1)] count_notin[OF disj_not_order(1)]
        count_notin[OF disj_not_completion(2)] count_notin[OF disj_not_order(2)] add_0)
  have "count_list (concat (map (\<lambda>m'. concat (map snd (machine_disj jobs bigM m'))) machines))
          (disj_second bigM p q)
      = count_list (machine_disj jobs bigM m) (disj_body bigM p q)"
    by (rule count_over_machines[OF dm m p])
       (auto simp: disj_body_def disj_second_inj disj_first_second)
  then show "count_list (constrs M) (disj_second bigM p q)
           = count_list (machine_disj jobs bigM m) (disj_body bigM p q)"
    by (simp only: stage1_build_parts(2)[OF b] count_list_append disj_not_makespan
        count_notin[OF disj_not_completion(1)] count_notin[OF disj_not_order(1)]
        count_notin[OF disj_not_completion(2)] count_notin[OF disj_not_order(2)] add_0)
qed

lemma stage1_model_binaries:
  assumes b: "stage1_build jobs machines bigM = Inr M" and dj: "distinct (map fst jobs)"
    and x: "Binary x \<in> set (vars M)"
  shows "\<exists>m\<in>set machines. \<exists>p\<in>set (ops_on jobs m). \<exists>q\<in>set (ops_on jobs m).
           p \<noteq> q \<and> x = disj_var p q"
proof -
  from x obtain m z where m: "m \<in> set machines" and z: "z \<in> set (machine_disj jobs bigM m)"
    and fz: "fst z = Binary x"
    by (auto simp: stage1_build_parts(1)[OF b] stage1_vars_continuous)
  from machine_disj_only_pairs[OF dj z] obtain p q where pq: "p \<in> set (ops_on jobs m)"
      "q \<in> set (ops_on jobs m)" "p \<noteq> q" "z = disj_body bigM p q"
    by blast
  with fz have "x = disj_var p q"
    by (simp add: disj_body_def)
  with m pq show ?thesis by blast
qed

lemma stage1_model_constraints:
  assumes b: "stage1_build jobs machines bigM = Inr M" and dj: "distinct (map fst jobs)"
    and c: "c \<in> set (constrs M)"
  shows "c \<in> set (stage1_completion jobs) \<or> c \<in> set (stage1_order jobs) \<or>
         (\<exists>i\<in>set (map fst jobs). c = Constr (V Cmax) GE (V (C_var i (length (route jobs i) - 1)))) \<or>
         (\<exists>m\<in>set machines. \<exists>p\<in>set (ops_on jobs m). \<exists>q\<in>set (ops_on jobs m).
            p \<noteq> q \<and> Binary (disj_var p q) \<in> set (vars M) \<and>
            (c = disj_first bigM p q \<or> c = disj_second bigM p q))"
proof -
  from c consider "c \<in> set (stage1_completion jobs)" | "c \<in> set (stage1_order jobs)"
    | "\<exists>i\<in>set (map fst jobs). c = Constr (V Cmax) GE (V (C_var i (length (route jobs i) - 1)))"
    | m z where "m \<in> set machines" "z \<in> set (machine_disj jobs bigM m)" "c \<in> set (snd z)"
    by (auto simp: stage1_build_parts(2)[OF b])
  then show ?thesis
  proof cases
    case 4
    from machine_disj_only_pairs[OF dj 4(2)] obtain p q where pq: "p \<in> set (ops_on jobs m)"
        "q \<in> set (ops_on jobs m)" "p \<noteq> q" "z = disj_body bigM p q"
      by blast
    have "Binary (disj_var p q) \<in> set (vars M)"
      using 4(1,2) pq(4) by (force simp: stage1_build_parts(1)[OF b] disj_body_def)
    moreover have "c = disj_first bigM p q \<or> c = disj_second bigM p q"
      using 4(3) pq(4) by (simp add: disj_body_def)
    ultimately show ?thesis
      using 4(1) pq(1,2,3) by blast
  qed blast+
qed


text \<open>
  C1: let \<open>jobs\<close> be a dict (no repeated job id) with no empty route and let the machine
  list have no repeated machine. Then stage 1 builds a model, and in that model, for every
  machine \<open>m\<close> of the list and every two distinct operations \<open>p\<close>, \<open>q\<close> routed to \<open>m\<close>,
  exactly one ordering binary is declared for the unordered pair (the one of \<open>(p, q)\<close> or
  the one of \<open>(q, p)\<close>, once, never both), and for that binary \<open>x\<close> of \<open>(a, b)\<close> the
  constraints \<open>S[a] \<ge> C[b] - bigM (1 - x)\<close> and \<open>S[b] \<ge> C[a] - bigM x\<close> each occur exactly
  once, while the constraints of the other orientation do not occur. The model has no
  other binary and, besides the completion, order and makespan constraints, no other
  constraint. One pass of the machine loop for a machine with \<open>n\<close> operations runs the body
  \<open>n (n - 1) / 2\<close> times, so not at all when \<open>n \<le> 1\<close>.
\<close>

theorem pairwise_disjunction:
  "distinct (map fst jobs) \<Longrightarrow> distinct machines \<Longrightarrow>
   \<forall>i\<in>set (map fst jobs). route jobs i \<noteq> [] \<Longrightarrow>
   (\<exists>M. stage1_build jobs machines bigM = Inr M \<and>
      (\<forall>m\<in>set machines. \<forall>p\<in>set (ops_on jobs m). \<forall>q\<in>set (ops_on jobs m). p \<noteq> q \<longrightarrow>
         count_list (vars M) (Binary (disj_var p q))
           + count_list (vars M) (Binary (disj_var q p)) = 1 \<and>
         count_list (constrs M) (disj_first bigM p q)
           = count_list (vars M) (Binary (disj_var p q)) \<and>
         count_list (constrs M) (disj_second bigM p q)
           = count_list (vars M) (Binary (disj_var p q))) \<and>
      (\<forall>x. Binary x \<in> set (vars M) \<longrightarrow>
         (\<exists>m\<in>set machines. \<exists>p\<in>set (ops_on jobs m). \<exists>q\<in>set (ops_on jobs m).
            p \<noteq> q \<and> x = disj_var p q)) \<and>
      (\<forall>c\<in>set (constrs M).
         c \<in> set (stage1_completion jobs) \<or> c \<in> set (stage1_order jobs) \<or>
         (\<exists>i\<in>set (map fst jobs).
            c = Constr (V Cmax) GE (V (C_var i (length (route jobs i) - 1)))) \<or>
         (\<exists>m\<in>set machines. \<exists>p\<in>set (ops_on jobs m). \<exists>q\<in>set (ops_on jobs m).
            p \<noteq> q \<and> Binary (disj_var p q) \<in> set (vars M) \<and>
            (c = disj_first bigM p q \<or> c = disj_second bigM p q))) \<and>
      vars M = stage1_vars jobs
        @ concat (map (\<lambda>m. map fst (machine_disj jobs bigM m)) machines) \<and>
      constrs M = stage1_completion jobs @ stage1_order jobs
        @ concat (map (\<lambda>m. concat (map snd (machine_disj jobs bigM m))) machines)
        @ map (\<lambda>i. Constr (V Cmax) GE (V (C_var i (length (route jobs i) - 1)))) (map fst jobs)) \<and>
   set (ops_on jobs m0) =
     {(i, k). i \<in> fst ` set jobs \<and> k < length (route jobs i) \<and> fst (route jobs i ! k) = m0} \<and>
   (\<forall>p\<in>set (ops_on jobs m0). \<forall>q\<in>set (ops_on jobs m0). p \<noteq> q \<longrightarrow>
      count_list (machine_disj jobs bigM m0) (disj_body bigM p q)
      + count_list (machine_disj jobs bigM m0) (disj_body bigM q p) = 1) \<and>
   (\<forall>e\<in>set (machine_disj jobs bigM m0).
      \<exists>p\<in>set (ops_on jobs m0). \<exists>q\<in>set (ops_on jobs m0). p \<noteq> q \<and> e = disj_body bigM p q) \<and>
   length (machine_disj jobs bigM m0)
     = length (ops_on jobs m0) * (length (ops_on jobs m0) - 1) div 2 \<and>
   (length (ops_on jobs m0) \<le> 1 \<longrightarrow> machine_disj jobs bigM m0 = []) \<and>
   disj_body bigM (i, k) (j, l)
     = (Binary (X_ord i k j l), [disj_first bigM (i, k) (j, l), disj_second bigM (i, k) (j, l)]) \<and>
   (sat v (disj_first bigM (i, k) (j, l)) \<longleftrightarrow>
      v (S_var i k) \<ge> v (C_var j l) - of_int bigM * (1 - v (X_ord i k j l))) \<and>
   (sat v (disj_second bigM (i, k) (j, l)) \<longleftrightarrow>
      v (S_var j l) \<ge> v (C_var i k) - of_int bigM * v (X_ord i k j l))"
proof -
  assume dj: "distinct (map fst jobs)" and dm: "distinct machines"
    and ne: "\<forall>i\<in>set (map fst jobs). route jobs i \<noteq> []"
  from stage1_build_succeeds[OF ne] obtain M where b: "stage1_build jobs machines bigM = Inr M"
    by blast
  have counts: "count_list (vars M) (Binary (disj_var p q))
           + count_list (vars M) (Binary (disj_var q p)) = 1 \<and>
         count_list (constrs M) (disj_first bigM p q)
           = count_list (vars M) (Binary (disj_var p q)) \<and>
         count_list (constrs M) (disj_second bigM p q)
           = count_list (vars M) (Binary (disj_var p q))"
    if "m \<in> set machines" "p \<in> set (ops_on jobs m)" "q \<in> set (ops_on jobs m)" "p \<noteq> q"
    for m p q
    using machine_disj_pair_once[OF dj that(2,3,4), of bigM]
    by (simp add: stage1_model_counts[OF b dm that(1,2)] stage1_model_counts[OF b dm that(1,3)])
  have model: "\<exists>M. stage1_build jobs machines bigM = Inr M \<and>
      (\<forall>m\<in>set machines. \<forall>p\<in>set (ops_on jobs m). \<forall>q\<in>set (ops_on jobs m). p \<noteq> q \<longrightarrow>
         count_list (vars M) (Binary (disj_var p q))
           + count_list (vars M) (Binary (disj_var q p)) = 1 \<and>
         count_list (constrs M) (disj_first bigM p q)
           = count_list (vars M) (Binary (disj_var p q)) \<and>
         count_list (constrs M) (disj_second bigM p q)
           = count_list (vars M) (Binary (disj_var p q))) \<and>
      (\<forall>x. Binary x \<in> set (vars M) \<longrightarrow>
         (\<exists>m\<in>set machines. \<exists>p\<in>set (ops_on jobs m). \<exists>q\<in>set (ops_on jobs m).
            p \<noteq> q \<and> x = disj_var p q)) \<and>
      (\<forall>c\<in>set (constrs M).
         c \<in> set (stage1_completion jobs) \<or> c \<in> set (stage1_order jobs) \<or>
         (\<exists>i\<in>set (map fst jobs).
            c = Constr (V Cmax) GE (V (C_var i (length (route jobs i) - 1)))) \<or>
         (\<exists>m\<in>set machines. \<exists>p\<in>set (ops_on jobs m). \<exists>q\<in>set (ops_on jobs m).
            p \<noteq> q \<and> Binary (disj_var p q) \<in> set (vars M) \<and>
            (c = disj_first bigM p q \<or> c = disj_second bigM p q))) \<and>
      vars M = stage1_vars jobs
        @ concat (map (\<lambda>m. map fst (machine_disj jobs bigM m)) machines) \<and>
      constrs M = stage1_completion jobs @ stage1_order jobs
        @ concat (map (\<lambda>m. concat (map snd (machine_disj jobs bigM m))) machines)
        @ map (\<lambda>i. Constr (V Cmax) GE (V (C_var i (length (route jobs i) - 1)))) (map fst jobs)"
  proof (intro exI[of _ M] conjI ballI allI impI)
    show "stage1_build jobs machines bigM = Inr M" by (rule b)
  next
    fix m p q
    assume "m \<in> set machines" "p \<in> set (ops_on jobs m)" "q \<in> set (ops_on jobs m)" "p \<noteq> q"
    from counts[OF this]
    show "count_list (vars M) (Binary (disj_var p q))
           + count_list (vars M) (Binary (disj_var q p)) = 1"
      and "count_list (constrs M) (disj_first bigM p q)
           = count_list (vars M) (Binary (disj_var p q))"
      and "count_list (constrs M) (disj_second bigM p q)
           = count_list (vars M) (Binary (disj_var p q))"
      by simp_all
  next
    fix x assume "Binary x \<in> set (vars M)"
    then show "\<exists>m\<in>set machines. \<exists>p\<in>set (ops_on jobs m). \<exists>q\<in>set (ops_on jobs m).
            p \<noteq> q \<and> x = disj_var p q"
      by (rule stage1_model_binaries[OF b dj])
  next
    fix c assume "c \<in> set (constrs M)"
    then show "c \<in> set (stage1_completion jobs) \<or> c \<in> set (stage1_order jobs) \<or>
         (\<exists>i\<in>set (map fst jobs).
            c = Constr (V Cmax) GE (V (C_var i (length (route jobs i) - 1)))) \<or>
         (\<exists>m\<in>set machines. \<exists>p\<in>set (ops_on jobs m). \<exists>q\<in>set (ops_on jobs m).
            p \<noteq> q \<and> Binary (disj_var p q) \<in> set (vars M) \<and>
            (c = disj_first bigM p q \<or> c = disj_second bigM p q))"
      by (rule stage1_model_constraints[OF b dj])
  next
    show "vars M = stage1_vars jobs
        @ concat (map (\<lambda>m. map fst (machine_disj jobs bigM m)) machines)"
      by (rule stage1_build_parts(1)[OF b])
  next
    show "constrs M = stage1_completion jobs @ stage1_order jobs
        @ concat (map (\<lambda>m. concat (map snd (machine_disj jobs bigM m))) machines)
        @ map (\<lambda>i. Constr (V Cmax) GE (V (C_var i (length (route jobs i) - 1)))) (map fst jobs)"
      by (rule stage1_build_parts(2)[OF b])
  qed
  have 1: "\<forall>p\<in>set (ops_on jobs m0). \<forall>q\<in>set (ops_on jobs m0). p \<noteq> q \<longrightarrow>
      count_list (machine_disj jobs bigM m0) (disj_body bigM p q)
      + count_list (machine_disj jobs bigM m0) (disj_body bigM q p) = 1"
    using machine_disj_pair_once[OF dj] by blast
  have 2: "\<forall>e\<in>set (machine_disj jobs bigM m0).
      \<exists>p\<in>set (ops_on jobs m0). \<exists>q\<in>set (ops_on jobs m0). p \<noteq> q \<and> e = disj_body bigM p q"
    using machine_disj_only_pairs[OF dj] by blast
  have 3: "disj_body bigM (i, k) (j, l)
     = (Binary (X_ord i k j l), [disj_first bigM (i, k) (j, l), disj_second bigM (i, k) (j, l)])"
    by (simp add: disj_body_def disj_var_def)
  show ?thesis
    apply (intro conjI)
            apply (rule model)
           apply (rule set_ops_on)
          apply (rule 1)
         apply (rule 2)
        apply (rule length_machine_disj)
       apply (rule impI, erule machine_disj_none)
      apply (rule 3)
     apply (rule sat_disj(1))
    apply (rule sat_disj(2))
    done
qed

lemma stage1_ops_1: "ops_on stage1_jobs 1 = [(1, 0), (2, 1)]"
  by (simp add: ops_on_def stage1_jobs_def route_def enumerate_eq_zip upt_rec)

lemma stage1_ops_3: "ops_on stage1_jobs 3 = []"
  by (simp add: ops_on_def stage1_jobs_def route_def enumerate_eq_zip upt_rec)

subsection \<open>Stage 1: the instance of the script\<close>

lemmas stage1_defs = stage1_build_def stage1_makespan_def route_def stage1_vars_def
  stage1_completion_def stage1_order_def stage1_disj_def machine_disj_def ops_on_def
  index_pairs_def disj_body_def disj_var_def disj_first_def disj_second_def enumerate_eq_zip
  upt_rec

lemma stage1_model:
  "stage1_build stage1_jobs stage1_machines bigM =
     Inr \<lparr> vars = [Continuous (S_var 1 0) 0, Continuous (C_var 1 0) 0,
                    Continuous (S_var 1 1) 0, Continuous (C_var 1 1) 0,
                    Continuous (S_var 2 0) 0, Continuous (C_var 2 0) 0,
                    Continuous (S_var 2 1) 0, Continuous (C_var 2 1) 0,
                    Continuous Cmax 0, Binary (X_ord 1 0 2 1), Binary (X_ord 1 1 2 0)],
           constrs = [Constr (V (C_var 1 0)) EQ (Plus (V (S_var 1 0)) (N 3)),
                      Constr (V (C_var 1 1)) EQ (Plus (V (S_var 1 1)) (N 2)),
                      Constr (V (C_var 2 0)) EQ (Plus (V (S_var 2 0)) (N 2)),
                      Constr (V (C_var 2 1)) EQ (Plus (V (S_var 2 1)) (N 1)),
                      Constr (V (S_var 1 1)) GE (V (C_var 1 0)),
                      Constr (V (S_var 2 1)) GE (V (C_var 2 0)),
                      Constr (V (S_var 1 0)) GE
                        (Minus (V (C_var 2 1))
                           (Times (of_int bigM) (Minus (N 1) (V (X_ord 1 0 2 1))))),
                      Constr (V (S_var 2 1)) GE
                        (Minus (V (C_var 1 0)) (Times (of_int bigM) (V (X_ord 1 0 2 1)))),
                      Constr (V (S_var 1 1)) GE
                        (Minus (V (C_var 2 0))
                           (Times (of_int bigM) (Minus (N 1) (V (X_ord 1 1 2 0))))),
                      Constr (V (S_var 2 0)) GE
                        (Minus (V (C_var 1 1)) (Times (of_int bigM) (V (X_ord 1 1 2 0)))),
                      Constr (V Cmax) GE (V (C_var 1 1)),
                      Constr (V Cmax) GE (V (C_var 2 1))],
           objective = V Cmax \<rparr>"
  by (simp add: stage1_defs stage1_jobs_def stage1_machines_def)

text \<open>
  C1 on the instance of the script: the model is built, machine 1 has the operations
  (1, 0) and (2, 1), the one binary of the pair is \<open>x_1_0_2_1\<close> and its two constraints
  occur once each; the model has 11 variables and 12 constraints.
\<close>

theorem pairwise_disjunction_witness:
  "\<exists>M. stage1_build stage1_jobs stage1_machines stage1_bigM = Inr M \<and>
     distinct (map fst stage1_jobs) \<and> distinct stage1_machines \<and>
     ops_on stage1_jobs 1 = [(1, 0), (2, 1)] \<and>
     count_list (vars M) (Binary (disj_var (1, 0) (2, 1)))
       + count_list (vars M) (Binary (disj_var (2, 1) (1, 0))) = 1 \<and>
     count_list (vars M) (Binary (X_ord 1 0 2 1)) = 1 \<and>
     count_list (constrs M) (disj_first stage1_bigM (1, 0) (2, 1)) = 1 \<and>
     count_list (constrs M) (disj_second stage1_bigM (1, 0) (2, 1)) = 1 \<and>
     length (vars M) = 11 \<and> length (constrs M) = 12"
proof -
  have d: "distinct (map fst stage1_jobs)" "distinct stage1_machines"
    "\<forall>i\<in>set (map fst stage1_jobs). route stage1_jobs i \<noteq> []"
    by (simp_all add: stage1_jobs_def stage1_machines_def route_def)
  note t = pairwise_disjunction[OF d, of stage1_bigM 1 0 0 0 0 "\<lambda>_. 0", THEN conjunct1]
  from t obtain M where M: "stage1_build stage1_jobs stage1_machines stage1_bigM = Inr M"
    and c: "\<forall>m\<in>set stage1_machines. \<forall>p\<in>set (ops_on stage1_jobs m).
         \<forall>q\<in>set (ops_on stage1_jobs m). p \<noteq> q \<longrightarrow>
         count_list (vars M) (Binary (disj_var p q))
           + count_list (vars M) (Binary (disj_var q p)) = 1 \<and>
         count_list (constrs M) (disj_first stage1_bigM p q)
           = count_list (vars M) (Binary (disj_var p q)) \<and>
         count_list (constrs M) (disj_second stage1_bigM p q)
           = count_list (vars M) (Binary (disj_var p q))"
    by (elim exE conjE) (rule that)
  have pq: "(1::int) \<in> set stage1_machines" "(1, 0) \<in> set (ops_on stage1_jobs 1)"
    "(2, 1) \<in> set (ops_on stage1_jobs 1)" "((1::int, 0::nat)) \<noteq> (2, 1)"
    by (simp_all add: stage1_machines_def stage1_ops_1)
  note r = c[rule_format, OF pq]
  have s: "count_list (vars M) (Binary (disj_var (1, 0) (2, 1)))
       + count_list (vars M) (Binary (disj_var (2, 1) (1, 0))) = 1"
    and f: "count_list (constrs M) (disj_first stage1_bigM (1, 0) (2, 1))
       = count_list (vars M) (Binary (disj_var (1, 0) (2, 1)))"
    and g: "count_list (constrs M) (disj_second stage1_bigM (1, 0) (2, 1))
       = count_list (vars M) (Binary (disj_var (1, 0) (2, 1)))"
    using r by simp_all
  have x: "count_list (vars M) (Binary (X_ord 1 0 2 1)) = 1" "length (vars M) = 11"
    "length (constrs M) = 12"
    using M by (auto simp: stage1_model)
  with s f g M d(1,2) show ?thesis
    by (simp add: stage1_ops_1 disj_var_def)
qed

text \<open>
  C2: the model stage 1 builds for job 1 = [(M1, 3), (M2, 2)], job 2 = [(M2, 2), (M1, 1)]
  (Big-M 1000) has minimum makespan exactly 5: a feasible valuation has makespan 5 and no
  feasible valuation has a smaller one.
\<close>

theorem stage1_minimum_makespan:
  "\<exists>M. stage1_build stage1_jobs stage1_machines stage1_bigM = Inr M \<and> optimal_value M 5"
proof -
  obtain M where M: "stage1_build stage1_jobs stage1_machines stage1_bigM = Inr M"
    by (simp add: stage1_model)
  have "feasible M stage1_schedule"
    using M by (auto simp: stage1_model feasible_def stage1_schedule_def stage1_bigM_def)
  moreover have "eval stage1_schedule (objective M) = 5"
    using M by (auto simp: stage1_model stage1_schedule_def)
  moreover have "5 \<le> eval v (objective M)" if "feasible M v" for v
    using M that by (auto simp: stage1_model feasible_def)
  ultimately have "optimal_value M 5"
    unfolding optimal_value_def by blast
  with M show ?thesis by blast
qed

text \<open>
  C2 at the schedule of the specification: it is feasible, and the bound holds for it.
\<close>

theorem stage1_minimum_makespan_witness:
  "\<exists>M. stage1_build stage1_jobs stage1_machines stage1_bigM = Inr M \<and>
       feasible M stage1_schedule \<and> 5 \<le> eval stage1_schedule (objective M)"
proof -
  obtain M where M: "stage1_build stage1_jobs stage1_machines stage1_bigM = Inr M"
    and opt: "optimal_value M 5"
    using stage1_minimum_makespan by blast
  have f: "feasible M stage1_schedule"
    using M by (auto simp: stage1_model feasible_def stage1_schedule_def stage1_bigM_def)
  with opt have "5 \<le> eval stage1_schedule (objective M)"
    unfolding optimal_value_def by blast
  with M f show ?thesis by blast
qed


subsection \<open>What is printed after the solve\<close>

lemma stage1_display_ignores_status:
  "stage1_display jobs (out\<lparr>status := s\<rparr>) = stage1_display jobs out"
  by (simp add: stage1_display_def)

lemma stage2_display_ignores_status:
  "stage2_display jobs n (out\<lparr>status := s\<rparr>) = stage2_display jobs n out"
  by (simp add: stage2_display_def)

text \<open>Stages 3 and 4 report every status other than \<open>OPTIMAL\<close> and read no value.\<close>

lemma stage3_display_not_optimal:
  "status out \<noteq> OPTIMAL \<Longrightarrow> stage3_display routes out = Inr (Stage3_no_optimal (status out))"
  by (simp add: stage3_display_def)

lemma stage4_display_not_optimal:
  "status out \<noteq> OPTIMAL \<Longrightarrow> stage4_display routes out = Inr (Stage4_no_optimal (status out))"
  by (simp add: stage4_display_def)

text \<open>
  C8 does not hold for stages 1 and 2, which read the solved values without looking at the
  status. With Big-M 1 in place of 1000 the stage 1 model of the script's own jobs has no
  feasible valuation; on the infeasible outcome (no solution held) stage 1 ends with
  \<open>AttributeError\<close> instead of reporting the status, and so does stage 2.
\<close>

theorem stage1_reads_values_whatever_the_status:
  "(\<exists>M. stage1_build stage1_jobs stage1_machines 1 = Inr M \<and> (\<forall>v. \<not> feasible M v)) \<and>
   stage1_display stage1_jobs \<lparr>status = INFEASIBLE, solution = None\<rparr> = Inl AttributeError \<and>
   stage2_display stage2_jobs stage2_num_stages \<lparr>status = INFEASIBLE, solution = None\<rparr>
     = Inl AttributeError"
proof -
  have "\<not> feasible M v" if "stage1_build stage1_jobs stage1_machines 1 = Inr M" for M v
    using that by (auto simp: stage1_model feasible_def)
  moreover have "\<exists>M. stage1_build stage1_jobs stage1_machines 1 = Inr M"
    by (simp add: stage1_model)
  ultimately show ?thesis
    by (auto simp: stage1_display_def stage2_display_def)
qed

lemma stage3_schedule_line:
  "(k + 1, i, t + 1, mp) \<in> set (stage3_schedule routes x) \<longleftrightarrow>
     k < routes_K routes \<and> (i, t) \<in> set (all_ops routes) \<and> x (Eta k i t) > 1 / 2 \<and>
     mp = route routes i ! t"
  by (cases mp) (fastforce simp: stage3_schedule_def)

lemma stage4_scheduled_line:
  "(i, t + 1, mp) \<in> set (stage4_scheduled routes x k) \<longleftrightarrow>
     (i, t) \<in> set (all_ops routes) \<and> x (Eta k i t) > 1 / 2 \<and> mp = route routes i ! t"
  by (cases mp) (fastforce simp: stage4_scheduled_def set_all_ops routes_jobs_def)

lemma stage4_schedule_stage:
  "(k + 1, ls) \<in> set (stage4_schedule routes x) \<longleftrightarrow>
     k < stage4_S routes \<and> ls = stage4_scheduled routes x k \<and> ls \<noteq> []"
  by (auto simp: stage4_schedule_def)

lemma concat_if_singleton:
  "concat (map (\<lambda>y. if P y then [f y] else []) ys) = map f (filter P ys)"
  by (induction ys) simp_all

lemma concat_product_if:
  "concat (map (\<lambda>k. concat (map (\<lambda>(i, t). if P k i t then [f k i t] else []) ys)) ks)
     = map (\<lambda>(k, i, t). f k i t) (filter (\<lambda>(k, i, t). P k i t) (List.product ks ys))"
proof (induction ks)
  case Nil
  then show ?case by simp
next
  case (Cons k ks)
  have "concat (map (\<lambda>(i, t). if P k i t then [f k i t] else []) ys)
      = map (\<lambda>(k, i, t). f k i t) (filter (\<lambda>(k, i, t). P k i t) (map (Pair k) ys))"
    by (induction ys) auto
  with Cons show ?case by simp
qed

lemma concat_pairs_if:
  "concat (map (\<lambda>i. concat (map (\<lambda>t. if P i t then [f i t] else []) (ts i))) js)
     = map (\<lambda>(i, t). f i t) (filter (\<lambda>(i, t). P i t) (concat (map (\<lambda>i. map (Pair i) (ts i)) js)))"
proof (induction js)
  case Nil
  then show ?case by simp
next
  case (Cons i js)
  have "concat (map (\<lambda>t. if P i t then [f i t] else []) xs)
      = map (\<lambda>(i, t). f i t) (filter (\<lambda>(i, t). P i t) (map (Pair i) xs))" for xs
    by (induction xs) auto
  with Cons show ?case by simp
qed

lemma stage3_schedule_alt:
  "stage3_schedule r x =
     map (\<lambda>(k, i, t). (k + 1, i, t + 1, route r i ! t))
       (filter (\<lambda>(k, i, t). x (Eta k i t) > 1 / 2)
          (List.product [0 ..< routes_K r] (all_ops r)))"
  unfolding stage3_schedule_def
  using concat_product_if[of "\<lambda>k i t. x (Eta k i t) > 1 / 2"
      "\<lambda>k i t. (k + 1, i, t + 1, fst (route r i ! t), snd (route r i ! t))"
      "all_ops r" "[0 ..< routes_K r]"]
  by simp

lemma distinct_all_ops: "distinct (map fst r) \<Longrightarrow> distinct (all_ops r)"
  unfolding all_ops_def routes_jobs_def
  by (rule distinct_concat_Pair) auto

lemma distinct_stage3_schedule:
  assumes "distinct (map fst r)"
  shows "distinct (stage3_schedule r x)"
proof -
  have "inj (\<lambda>(k::nat, i::job_id, t::nat). (k + 1, i, t + 1, route r i ! t))"
    by (auto simp: inj_on_def)
  moreover have "distinct (List.product [0 ..< routes_K r] (all_ops r))"
    using assms by (simp add: distinct_product distinct_all_ops)
  ultimately show ?thesis
    unfolding stage3_schedule_alt
    by (simp add: distinct_map inj_on_subset[OF _ subset_UNIV])
qed

lemma stage3_schedule_count:
  assumes "distinct (map fst r)"
  shows "count_list (stage3_schedule r x) (k + 1, i, t + 1, mp) =
     (if k < routes_K r \<and> (i, t) \<in> set (all_ops r) \<and> x (Eta k i t) > 1 / 2 \<and>
         mp = route r i ! t then 1 else 0)"
  by (simp only: count_list_distinct[OF distinct_stage3_schedule[OF assms]] stage3_schedule_line)

lemma stage3_schedule_shape:
  assumes "l \<in> set (stage3_schedule r x)"
  shows "\<exists>k i t. l = (k + 1, i, t + 1, route r i ! t) \<and> k < routes_K r \<and>
           (i, t) \<in> set (all_ops r) \<and> x (Eta k i t) > 1 / 2"
  using assms unfolding stage3_schedule_alt by auto

lemma stage3_schedule_lines_of_op:
  assumes dj: "distinct (map fst r)" and op: "(i, t) \<in> set (all_ops r)"
  shows "length (filter (\<lambda>(s, j, u, mp). j = i \<and> u = t + 1) (stage3_schedule r x))
       = card {k. k < routes_K r \<and> x (Eta k i t) > 1 / 2}"
proof -
  let ?ls = "filter (\<lambda>(s, j, u, mp). j = i \<and> u = t + 1) (stage3_schedule r x)"
  have "distinct ?ls"
    using distinct_stage3_schedule[OF dj] by simp
  then have "length ?ls = card (set ?ls)"
    by (rule distinct_card[symmetric])
  also have "set ?ls = (\<lambda>k. (k + 1, i, t + 1, route r i ! t)) `
                 {k. k < routes_K r \<and> x (Eta k i t) > 1 / 2}"
  proof (rule set_eqI, rule iffI)
    fix l assume "l \<in> set ?ls"
    then have l: "l \<in> set (stage3_schedule r x)" and f: "(\<lambda>(s, j, u, mp). j = i \<and> u = t + 1) l"
      by simp_all
    from stage3_schedule_shape[OF l] obtain k i' t' where
      "l = (k + 1, i', t' + 1, route r i' ! t')" "k < routes_K r" "x (Eta k i' t') > 1 / 2"
      by blast
    with f show "l \<in> (\<lambda>k. (k + 1, i, t + 1, route r i ! t)) `
                 {k. k < routes_K r \<and> x (Eta k i t) > 1 / 2}"
      by auto
  next
    fix l assume "l \<in> (\<lambda>k. (k + 1, i, t + 1, route r i ! t)) `
                 {k. k < routes_K r \<and> x (Eta k i t) > 1 / 2}"
    then obtain k where "l = (k + 1, i, t + 1, route r i ! t)" "k < routes_K r"
        "x (Eta k i t) > 1 / 2"
      by auto
    then show "l \<in> set ?ls"
      using op stage3_schedule_line[of k i t "route r i ! t" r x] by simp
  qed
  also have "card \<dots> = card {k. k < routes_K r \<and> x (Eta k i t) > 1 / 2}"
    by (rule card_image) (simp add: inj_on_def)
  finally show ?thesis .
qed

lemma stage4_scheduled_alt:
  "stage4_scheduled r x k =
     map (\<lambda>(i, t). (i, t + 1, route r i ! t))
       (filter (\<lambda>(i, t). x (Eta k i t) > 1 / 2) (all_ops r))"
  unfolding stage4_scheduled_def all_ops_def
  using concat_pairs_if[of "\<lambda>i t. x (Eta k i t) > 1 / 2"
      "\<lambda>i t. (i, t + 1, fst (route r i ! t), snd (route r i ! t))"
      "\<lambda>i. [0 ..< length (route r i)]" "routes_jobs r"]
  by simp

lemma stage4_schedule_alt:
  "stage4_schedule r x =
     map (\<lambda>k. (k + 1, stage4_scheduled r x k))
       (filter (\<lambda>k. stage4_scheduled r x k \<noteq> []) [0 ..< stage4_S r])"
  unfolding stage4_schedule_def
  using concat_if_singleton[of "\<lambda>k. stage4_scheduled r x k \<noteq> []"
      "\<lambda>k. (k + 1, stage4_scheduled r x k)" "[0 ..< stage4_S r]"]
  by simp

lemma stage4_scheduled_nonempty:
  "stage4_scheduled r x k \<noteq> [] \<longleftrightarrow> (\<exists>(i, t) \<in> set (all_ops r). x (Eta k i t) > 1 / 2)"
  unfolding stage4_scheduled_alt by (auto simp: filter_empty_conv)

lemma distinct_stage4_scheduled:
  assumes "distinct (map fst r)"
  shows "distinct (stage4_scheduled r x k)"
proof -
  have "inj (\<lambda>(i::job_id, t::nat). (i, t + 1, route r i ! t))"
    by (auto simp: inj_on_def)
  then show ?thesis
    unfolding stage4_scheduled_alt
    using distinct_all_ops[OF assms]
    by (simp add: distinct_map inj_on_subset[OF _ subset_UNIV])
qed

lemma distinct_stage4_schedule: "distinct (stage4_schedule r x)"
  unfolding stage4_schedule_alt by (simp add: distinct_map inj_on_def)

lemma stage4_scheduled_count:
  assumes "distinct (map fst r)"
  shows "count_list (stage4_scheduled r x k) (i, t + 1, mp) =
     (if (i, t) \<in> set (all_ops r) \<and> x (Eta k i t) > 1 / 2 \<and> mp = route r i ! t
      then 1 else 0)"
  by (simp only: count_list_distinct[OF distinct_stage4_scheduled[OF assms]]
      stage4_scheduled_line)

lemma stage4_schedule_count:
  "count_list (stage4_schedule r x) (k + 1, ls) =
     (if k < stage4_S r \<and> ls = stage4_scheduled r x k \<and> ls \<noteq> [] then 1 else 0)"
  by (simp only: count_list_distinct[OF distinct_stage4_schedule] stage4_schedule_stage)

lemma stage4_schedule_lines_of_op:
  assumes op: "(i, t) \<in> set (all_ops r)"
  shows "length (filter (\<lambda>(s, ls). (i, t + 1, route r i ! t) \<in> set ls) (stage4_schedule r x))
       = card {k. k < stage4_S r \<and> x (Eta k i t) > 1 / 2}"
proof -
  have in_iff: "(i, t + 1, route r i ! t) \<in> set (stage4_scheduled r x k) \<longleftrightarrow>
      x (Eta k i t) > 1 / 2" for k
    using op stage4_scheduled_line[of i t "route r i ! t" r x k] by simp
  have ne: "stage4_scheduled r x k \<noteq> []" if "x (Eta k i t) > 1 / 2" for k
    using in_iff[of k] that by auto
  have "filter (\<lambda>(s, ls). (i, t + 1, route r i ! t) \<in> set ls) (stage4_schedule r x)
      = map (\<lambda>k. (k + 1, stage4_scheduled r x k))
          (filter (\<lambda>k. x (Eta k i t) > 1 / 2) [0 ..< stage4_S r])"
    unfolding stage4_schedule_alt filter_map filter_filter
    by (rule arg_cong[where f = "map _"], rule filter_cong) (use in_iff ne in auto)
  then have "length (filter (\<lambda>(s, ls). (i, t + 1, route r i ! t) \<in> set ls) (stage4_schedule r x))
      = length (filter (\<lambda>k. x (Eta k i t) > 1 / 2) [0 ..< stage4_S r])"
    by simp
  also have "\<dots> = card (set (filter (\<lambda>k. x (Eta k i t) > 1 / 2) [0 ..< stage4_S r]))"
    by (rule distinct_card[symmetric]) simp
  also have "set (filter (\<lambda>k. x (Eta k i t) > 1 / 2) [0 ..< stage4_S r])
      = {k. k < stage4_S r \<and> x (Eta k i t) > 1 / 2}"
    by auto
  finally show ?thesis .
qed

text \<open>
  C9, as the claim states it, fails: with every indicator at 0 the one operation has no
  indicator above one half, and with every indicator at 1 each of two operations has two;
  in both cases stage 3 prints a schedule (empty in the first, four lines in the second)
  and raises nothing.
\<close>

theorem stage3_display_accepts_inconsistent:
  "stage3_display [(1, [(1, 1)])] \<lparr>status = OPTIMAL, solution = Some (\<lambda>_. 0)\<rparr>
     = Inr (Stage3_solution 0 [] []) \<and>
   stage3_display [(1, [(1, 1)]), (2, [(1, 1)])] \<lparr>status = OPTIMAL, solution = Some (\<lambda>_. 1)\<rparr>
     = Inr (Stage3_solution 1 [(1, 1, 1, 1, 1), (1, 2, 1, 1, 1), (2, 1, 1, 1, 1), (2, 2, 1, 1, 1)]
              [(0, 1, 1), (1, 1, 1), (2, 1, 1)])"
  by (simp add: stage3_display_def stage3_schedule_def routes_K_def all_ops_def routes_jobs_def
      route_def routes_machines_def upt_rec)

text \<open>
  C9, amended: on a successful solve stages 3 and 4 list, stage by stage and in the order
  of the operation loop, every operation whose indicator at that stage exceeds 0.5, and
  nothing else: the listing is the operation loop filtered by the threshold test, every
  line has the shape (stage number, job, operation number, machine, time) of such an
  indicator, and (the route data being a dict) no line is repeated. Nothing is validated
  and \<open>InconsistentSolution\<close> is never raised: the number of lines of an operation is the
  number of its indicators above 0.5, so an operation with none is left out and one with
  several is listed once per such stage. (Stage 4 groups the lines by stage and prints
  only the stages that have at least one listed operation.)
\<close>

theorem schedule_listing_unvalidated:
  "stage3_display r3 out \<noteq> Inl InconsistentSolution \<and>
   stage4_display r4 out \<noteq> Inl InconsistentSolution \<and>
   stage3_display r3 \<lparr>status = OPTIMAL, solution = Some x\<rparr>
     = Inr (Stage3_solution (x Cmax) (stage3_schedule r3 x)
              [(k, m, x (Theta k m)).
                 k \<leftarrow> [0 ..< routes_K r3 + 1], m \<leftarrow> routes_machines r3, x (Theta k m) > 0]) \<and>
   stage3_schedule r3 x =
     map (\<lambda>(k, i, t). (k + 1, i, t + 1, route r3 i ! t))
       (filter (\<lambda>(k, i, t). x (Eta k i t) > 1 / 2)
          (List.product [0 ..< routes_K r3] (all_ops r3))) \<and>
   (\<forall>l \<in> set (stage3_schedule r3 x).
      \<exists>k i t. l = (k + 1, i, t + 1, route r3 i ! t) \<and> k < routes_K r3 \<and>
        (i, t) \<in> set (all_ops r3) \<and> x (Eta k i t) > 1 / 2) \<and>
   (distinct (map fst r3) \<longrightarrow>
      distinct (all_ops r3) \<and> distinct (stage3_schedule r3 x) \<and>
      count_list (stage3_schedule r3 x) (k + 1, i, t + 1, mp3) =
        (if k < routes_K r3 \<and> (i, t) \<in> set (all_ops r3) \<and> x (Eta k i t) > 1 / 2 \<and>
            mp3 = route r3 i ! t then 1 else 0) \<and>
      ((i, t) \<in> set (all_ops r3) \<longrightarrow>
         length (filter (\<lambda>(s, j, u, mp). j = i \<and> u = t + 1) (stage3_schedule r3 x))
           = card {k. k < routes_K r3 \<and> x (Eta k i t) > 1 / 2})) \<and>
   (\<exists>a. stage4_display r4 \<lparr>status = OPTIMAL, solution = Some x\<rparr>
     = Inr (Stage4_solution a (x Cmax) (stage4_schedule r4 x)
              [(k, m, x (Theta k m)). k \<leftarrow> [0 ..< stage4_S r4 + 1], m \<leftarrow> routes_machines r4]
              [(i, t, x (W_var i t)).
                 i \<leftarrow> routes_jobs r4, t \<leftarrow> [0 ..< length (route r4 i) - 1]]
              [(i, x (Cjob i)). i \<leftarrow> routes_jobs r4])) \<and>
   stage4_schedule r4 x =
     map (\<lambda>k. (k + 1, stage4_scheduled r4 x k))
       (filter (\<lambda>k. stage4_scheduled r4 x k \<noteq> []) [0 ..< stage4_S r4]) \<and>
   stage4_scheduled r4 x k =
     map (\<lambda>(i, t). (i, t + 1, route r4 i ! t))
       (filter (\<lambda>(i, t). x (Eta k i t) > 1 / 2) (all_ops r4)) \<and>
   count_list (stage4_schedule r4 x) (k + 1, ls) =
     (if k < stage4_S r4 \<and> ls = stage4_scheduled r4 x k \<and> ls \<noteq> [] then 1 else 0) \<and>
   (distinct (map fst r4) \<longrightarrow>
      distinct (all_ops r4) \<and>
      count_list (stage4_scheduled r4 x k) (i, t + 1, mp4) =
        (if (i, t) \<in> set (all_ops r4) \<and> x (Eta k i t) > 1 / 2 \<and> mp4 = route r4 i ! t
         then 1 else 0)) \<and>
   ((i, t) \<in> set (all_ops r4) \<longrightarrow>
      length (filter (\<lambda>(s, ls). (i, t + 1, route r4 i ! t) \<in> set ls) (stage4_schedule r4 x))
        = card {k. k < stage4_S r4 \<and> x (Eta k i t) > 1 / 2})"
proof (intro conjI impI ballI)
  show "stage3_display r3 out \<noteq> Inl InconsistentSolution"
    by (simp add: stage3_display_def split: option.split)
  show "stage4_display r4 out \<noteq> Inl InconsistentSolution"
    by (simp add: stage4_display_def split: option.split)
  show "stage3_display r3 \<lparr>status = OPTIMAL, solution = Some x\<rparr>
     = Inr (Stage3_solution (x Cmax) (stage3_schedule r3 x)
              [(k, m, x (Theta k m)).
                 k \<leftarrow> [0 ..< routes_K r3 + 1], m \<leftarrow> routes_machines r3, x (Theta k m) > 0])"
    by (simp add: stage3_display_def)
  show "stage3_schedule r3 x =
     map (\<lambda>(k, i, t). (k + 1, i, t + 1, route r3 i ! t))
       (filter (\<lambda>(k, i, t). x (Eta k i t) > 1 / 2)
          (List.product [0 ..< routes_K r3] (all_ops r3)))"
    by (rule stage3_schedule_alt)
  show "\<exists>k i t. l = (k + 1, i, t + 1, route r3 i ! t) \<and> k < routes_K r3 \<and>
        (i, t) \<in> set (all_ops r3) \<and> x (Eta k i t) > 1 / 2"
    if "l \<in> set (stage3_schedule r3 x)" for l
    using that by (rule stage3_schedule_shape)
  show "distinct (all_ops r3)" if "distinct (map fst r3)"
    using that by (rule distinct_all_ops)
  show "distinct (stage3_schedule r3 x)" if "distinct (map fst r3)"
    using that by (rule distinct_stage3_schedule)
  show "count_list (stage3_schedule r3 x) (k + 1, i, t + 1, mp3) =
        (if k < routes_K r3 \<and> (i, t) \<in> set (all_ops r3) \<and> x (Eta k i t) > 1 / 2 \<and>
            mp3 = route r3 i ! t then 1 else 0)" if "distinct (map fst r3)"
    using that by (rule stage3_schedule_count)
  show "length (filter (\<lambda>(s, j, u, mp). j = i \<and> u = t + 1) (stage3_schedule r3 x))
           = card {k. k < routes_K r3 \<and> x (Eta k i t) > 1 / 2}"
    if "distinct (map fst r3)" "(i, t) \<in> set (all_ops r3)"
    using that by (rule stage3_schedule_lines_of_op)
  show "\<exists>a. stage4_display r4 \<lparr>status = OPTIMAL, solution = Some x\<rparr>
     = Inr (Stage4_solution a (x Cmax) (stage4_schedule r4 x)
              [(k, m, x (Theta k m)). k \<leftarrow> [0 ..< stage4_S r4 + 1], m \<leftarrow> routes_machines r4]
              [(i, t, x (W_var i t)).
                 i \<leftarrow> routes_jobs r4, t \<leftarrow> [0 ..< length (route r4 i) - 1]]
              [(i, x (Cjob i)). i \<leftarrow> routes_jobs r4])"
    by (simp add: stage4_display_def)
  show "stage4_schedule r4 x =
     map (\<lambda>k. (k + 1, stage4_scheduled r4 x k))
       (filter (\<lambda>k. stage4_scheduled r4 x k \<noteq> []) [0 ..< stage4_S r4])"
    by (rule stage4_schedule_alt)
  show "stage4_scheduled r4 x k =
     map (\<lambda>(i, t). (i, t + 1, route r4 i ! t))
       (filter (\<lambda>(i, t). x (Eta k i t) > 1 / 2) (all_ops r4))"
    by (rule stage4_scheduled_alt)
  show "count_list (stage4_schedule r4 x) (k + 1, ls) =
     (if k < stage4_S r4 \<and> ls = stage4_scheduled r4 x k \<and> ls \<noteq> [] then 1 else 0)"
    by (rule stage4_schedule_count)
  show "distinct (all_ops r4)" if "distinct (map fst r4)"
    using that by (rule distinct_all_ops)
  show "count_list (stage4_scheduled r4 x k) (i, t + 1, mp4) =
        (if (i, t) \<in> set (all_ops r4) \<and> x (Eta k i t) > 1 / 2 \<and> mp4 = route r4 i ! t
         then 1 else 0)" if "distinct (map fst r4)"
    using that by (rule stage4_scheduled_count)
  show "length (filter (\<lambda>(s, ls). (i, t + 1, route r4 i ! t) \<in> set ls) (stage4_schedule r4 x))
        = card {k. k < stage4_S r4 \<and> x (Eta k i t) > 1 / 2}"
    if "(i, t) \<in> set (all_ops r4)"
    using that by (rule stage4_schedule_lines_of_op)
qed

text \<open>
  C9 on two jobs of one operation each, every indicator at 1: the four lines of stage 3
  in loop order, each once, two of them for the operation of job 1; stage 4 prints the two
  stages with both operations under each.
\<close>

theorem schedule_listing_unvalidated_witness:
  "distinct (map fst [(1::job_id, [(1::machine_id, 1::real)]), (2, [(1, 1)])]) \<and>
   (1, 0) \<in> set (all_ops [(1, [(1, 1::real)]), (2, [(1, 1)])]) \<and>
   stage3_schedule [(1, [(1, 1)]), (2, [(1, 1)])] (\<lambda>_. 1)
     = [(1, 1, 1, 1, 1), (1, 2, 1, 1, 1), (2, 1, 1, 1, 1), (2, 2, 1, 1, 1)] \<and>
   count_list (stage3_schedule [(1, [(1, 1)]), (2, [(1, 1)])] (\<lambda>_. 1)) (0 + 1, 1, 0 + 1, 1, 1) = 1 \<and>
   length (filter (\<lambda>(s, j, u, mp). j = 1 \<and> u = 0 + 1)
             (stage3_schedule [(1, [(1, 1)]), (2, [(1, 1)])] (\<lambda>_. 1)))
     = card {k. k < routes_K [(1, [(1, 1::real)]), (2, [(1, 1)])] \<and> (1::real) > 1 / 2} \<and>
   distinct (map fst [(1::job_id, [(1::machine_id, 1::int)]), (2, [(1, 1)])]) \<and>
   (1, 0) \<in> set (all_ops [(1, [(1, 1::int)]), (2, [(1, 1)])]) \<and>
   stage4_schedule [(1, [(1, 1)]), (2, [(1, 1)])] (\<lambda>_. 1)
     = [(1, [(1, 1, 1, 1), (2, 1, 1, 1)]), (2, [(1, 1, 1, 1), (2, 1, 1, 1)])] \<and>
   count_list (stage4_scheduled [(1, [(1, 1)]), (2, [(1, 1)])] (\<lambda>_. 1) 0) (1, 0 + 1, 1, 1) = 1"
proof -
  let ?r3 = "[(1::job_id, [(1::machine_id, 1::real)]), (2, [(1, 1)])]"
  let ?r4 = "[(1::job_id, [(1::machine_id, 1::int)]), (2, [(1, 1)])]"
  note t = schedule_listing_unvalidated[of ?r3 undefined ?r4 "\<lambda>_. 1" 0 1 0
      "(1, 1)" "[]" "(1, 1)"]
  have d3: "distinct (map fst ?r3)" and d4: "distinct (map fst ?r4)"
    by simp_all
  have o3: "(1, 0) \<in> set (all_ops ?r3)" and o4: "(1, 0) \<in> set (all_ops ?r4)"
    by (simp_all add: all_ops_def routes_jobs_def route_def)
  have K3: "routes_K ?r3 = 2" and S4: "stage4_S ?r4 = 2"
    by (simp_all add: routes_K_def stage4_S_def)
  have r3: "route ?r3 1 ! 0 = (1, 1)" and r4: "route ?r4 1 ! 0 = (1, 1)"
    by (simp_all add: route_def)
  have s3: "stage3_schedule ?r3 (\<lambda>_. 1)
     = [(1, 1, 1, 1, 1), (1, 2, 1, 1, 1), (2, 1, 1, 1, 1), (2, 2, 1, 1, 1)]"
    by (simp add: stage3_schedule_def routes_K_def all_ops_def routes_jobs_def route_def upt_rec)
  have s4: "stage4_schedule ?r4 (\<lambda>_. 1)
     = [(1, [(1, 1, 1, 1), (2, 1, 1, 1)]), (2, [(1, 1, 1, 1), (2, 1, 1, 1)])]"
    by (simp add: stage4_schedule_def stage4_scheduled_def stage4_S_def routes_K_def
        routes_jobs_def route_def upt_rec)
  note t3 = t[THEN conjunct2, THEN conjunct2, THEN conjunct2, THEN conjunct2, THEN conjunct2,
      THEN conjunct1, rule_format, OF d3]
  note t4 = t[THEN conjunct2, THEN conjunct2, THEN conjunct2, THEN conjunct2, THEN conjunct2,
      THEN conjunct2, THEN conjunct2, THEN conjunct2, THEN conjunct2, THEN conjunct2,
      THEN conjunct1, rule_format, OF d4]
  have c3: "count_list (stage3_schedule ?r3 (\<lambda>_. 1)) (0 + 1, 1, 0 + 1, 1, 1) = 1"
    using t3[THEN conjunct2, THEN conjunct2, THEN conjunct1] o3 K3 r3 by simp
  have l3: "length (filter (\<lambda>(s, j, u, mp). j = 1 \<and> u = 0 + 1) (stage3_schedule ?r3 (\<lambda>_. 1)))
     = card {k. k < routes_K ?r3 \<and> (1::real) > 1 / 2}"
    using t3[THEN conjunct2, THEN conjunct2, THEN conjunct2, rule_format, OF o3] .
  have c4: "count_list (stage4_scheduled ?r4 (\<lambda>_. 1) 0) (1, 0 + 1, 1, 1) = 1"
    using t4[THEN conjunct2] o4 r4 by simp
  show ?thesis
    using d3 o3 s3 c3 l3 d4 o4 s4 c4 by blast
qed


subsection \<open>Stage 3: precedence\<close>

lemma set_triple_loop:
  "c \<in> set [g i t k. i \<leftarrow> ks, t \<leftarrow> [lo ..< L i], k \<leftarrow> [0 ..< K]] \<longleftrightarrow>
     (\<exists>i t k. i \<in> set ks \<and> lo \<le> t \<and> t < L i \<and> k < K \<and> c = g i t k)"
  by fastforce

lemma set_stage3_precedence:
  "c \<in> set (stage3_precedence routes) \<longleftrightarrow>
     (\<exists>i t k2. i \<in> set (map fst routes) \<and> 1 \<le> t \<and> t < length (route routes i) \<and>
        k2 < routes_K routes \<and> c = stage3_prec_constr i t k2)"
  unfolding stage3_precedence_def routes_jobs_def by (rule set_triple_loop)

lemma sat_stage3_prec_constr:
  "sat v (stage3_prec_constr i t k2) \<longleftrightarrow> (\<Sum>k1\<le>k2. v (Eta k1 i (t - 1))) \<ge> v (Eta k2 i t)"
proof -
  have "(\<Sum>k1\<leftarrow>[0..<Suc k2]. v (Eta k1 i (t - 1))) = (\<Sum>k1\<le>k2. v (Eta k1 i (t - 1)))"
    by (simp only: interv_sum_list_conv_sum_set_nat set_upt atLeast0LessThan lessThan_Suc_atMost)
  then show ?thesis
    by (simp add: stage3_prec_constr_def comp_def)
qed

lemma stage3_prec_constr_inj:
  "stage3_prec_constr i t k2 = stage3_prec_constr i' t' k2' \<longleftrightarrow> i = i' \<and> t = t' \<and> k2 = k2'"
  by (auto simp: stage3_prec_constr_def)

lemma stage3_precedence_alt:
  "stage3_precedence routes =
     map (\<lambda>(i, t, k2). stage3_prec_constr i t k2)
       (concat (map (\<lambda>i. map (Pair i)
          (concat (map (\<lambda>t. map (Pair t) [0..<routes_K routes]) [1..<length (route routes i)])))
          (routes_jobs routes)))"
  by (simp add: stage3_precedence_def map_concat comp_def)

lemma distinct_stage3_precedence:
  assumes "distinct (map fst routes)"
  shows "distinct (stage3_precedence routes)"
proof -
  have "distinct (concat (map (\<lambda>i. map (Pair i)
          (concat (map (\<lambda>t. map (Pair t) [0..<routes_K routes]) [1..<length (route routes i)])))
          (routes_jobs routes)))"
    using assms by (intro distinct_concat_Pair) (simp_all add: routes_jobs_def)
  moreover have "inj (\<lambda>(i, t, k2). stage3_prec_constr i t k2)"
    by (auto simp: inj_on_def stage3_prec_constr_inj)
  ultimately show ?thesis
    unfolding stage3_precedence_alt by (simp add: distinct_map inj_on_subset[OF _ subset_UNIV])
qed

lemma stage3_precedence_emitted:
  "set (stage3_precedence routes) \<subseteq> set (constrs (stage3_build routes))"
  by (auto simp: stage3_build_def)

lemma stage3_small_K: "routes_K stage3_small = 2"
  by (simp add: routes_K_def stage3_small_def)

lemma stage3_small_machines: "routes_machines stage3_small = [1, 2]"
  by (simp add: routes_machines_def stage3_small_def)

lemma stage3_small_ops: "all_ops stage3_small = [(1, 0), (1, 1)]"
  by (simp add: all_ops_def routes_jobs_def stage3_small_def route_def upt_rec)

lemma stage3_small_route: "route stage3_small 1 = [(1, 2), (2, 1)]"
  by (simp add: stage3_small_def route_def)

lemma stage3_small_jobs: "routes_jobs stage3_small = [1]"
  by (simp add: stage3_small_def routes_jobs_def)

lemmas stage3_small_defs = stage3_build_def stage3_vars_def stage3_one_per_stage_def
  stage3_once_def stage3_recursion_def stage3_makespan_def stage3_precedence_def
  stage3_prec_constr_def stage3_small_K stage3_small_machines stage3_small_ops
  stage3_small_route stage3_small_jobs upt_rec

lemma stage3_small_feasible: "feasible (stage3_build stage3_small) stage3_small_schedule"
  by (simp add: feasible_def stage3_small_defs stage3_small_schedule_def)

text \<open>
  C4: the precedence section of stage 3 consists of exactly the constraints
  \<open>\<Sum>\<^bsub>k1 \<le> k2\<^esub> \<eta>[k1, i, t - 1] \<ge> \<eta>[k2, i, t]\<close>, one for every job \<open>i\<close>, every operation
  index \<open>t\<close> from the second operation on and every stage \<open>k2 < K\<close> (each once when no job
  id repeats); they are part of the model, so every feasible valuation satisfies the
  inequality: the number of stages up to \<open>k2\<close> holding the predecessor is at least the
  successor's indicator at \<open>k2\<close>.
\<close>

theorem stage3_precedence_form:
  "(c \<in> set (stage3_precedence routes) \<longleftrightarrow>
     (\<exists>i t k2. i \<in> set (map fst routes) \<and> 1 \<le> t \<and> t < length (route routes i) \<and>
        k2 < routes_K routes \<and> c = stage3_prec_constr i t k2)) \<and>
   stage3_prec_constr i t k2
     = Constr (Quicksum [V (Eta k1 i (t - 1)). k1 \<leftarrow> [0 ..< k2 + 1]]) GE (V (Eta k2 i t)) \<and>
   (sat v (stage3_prec_constr i t k2) \<longleftrightarrow>
      (\<Sum>k1\<le>k2. v (Eta k1 i (t - 1))) \<ge> v (Eta k2 i t)) \<and>
   (distinct (map fst routes) \<longrightarrow> distinct (stage3_precedence routes)) \<and>
   set (stage3_precedence routes) \<subseteq> set (constrs (stage3_build routes)) \<and>
   (feasible (stage3_build routes) v \<and> i \<in> set (map fst routes) \<and> 1 \<le> t \<and>
    t < length (route routes i) \<and> k2 < routes_K routes \<longrightarrow>
      (\<Sum>k1\<le>k2. v (Eta k1 i (t - 1))) \<ge> v (Eta k2 i t))"
proof -
  have "(\<Sum>k1\<le>k2. v (Eta k1 i (t - 1))) \<ge> v (Eta k2 i t)"
    if f: "feasible (stage3_build routes) v" and i: "i \<in> set (map fst routes)"
      and t: "1 \<le> t" "t < length (route routes i)" and k: "k2 < routes_K routes"
  proof -
    have "stage3_prec_constr i t k2 \<in> set (stage3_precedence routes)"
      unfolding set_stage3_precedence using i t k by blast
    then have "stage3_prec_constr i t k2 \<in> set (constrs (stage3_build routes))"
      using stage3_precedence_emitted by blast
    then have "sat v (stage3_prec_constr i t k2)"
      using f by (simp add: feasible_def list_all_iff)
    then show ?thesis
      by (simp only: sat_stage3_prec_constr)
  qed
  then show ?thesis
    using set_stage3_precedence[of c routes] sat_stage3_prec_constr[of v i t k2]
      distinct_stage3_precedence[of routes] stage3_precedence_emitted[of routes]
    by (simp add: stage3_prec_constr_def)
qed

text \<open>C4 on the small instance: two precedence constraints, satisfied by the schedule.\<close>

theorem stage3_precedence_form_witness:
  "distinct (map fst stage3_small) \<and> distinct (stage3_precedence stage3_small) \<and>
   stage3_precedence stage3_small = [stage3_prec_constr 1 1 0, stage3_prec_constr 1 1 1] \<and>
   feasible (stage3_build stage3_small) stage3_small_schedule \<and>
   (\<Sum>k1\<le>1. stage3_small_schedule (Eta k1 1 (1 - 1))) \<ge> stage3_small_schedule (Eta 1 1 1)"
proof -
  note t = stage3_precedence_form[of "stage3_prec_constr 1 1 0" stage3_small 1 1 1
      stage3_small_schedule]
  have d: "distinct (map fst stage3_small)"
    by (simp add: stage3_small_def)
  have l: "stage3_precedence stage3_small = [stage3_prec_constr 1 1 0, stage3_prec_constr 1 1 1]"
    by (simp add: stage3_precedence_def stage3_small_jobs stage3_small_K stage3_small_route
        upt_rec)
  have "(\<Sum>k1\<le>1. stage3_small_schedule (Eta k1 1 (1 - 1))) \<ge> stage3_small_schedule (Eta 1 1 1)"
  proof -
    have "(1::int) \<in> set (map fst stage3_small)"
      by (simp add: stage3_small_def)
    moreover have "(1::nat) \<le> 1" "(1::nat) < length (route stage3_small 1)"
      "1 < routes_K stage3_small"
      by (simp_all add: stage3_small_route stage3_small_K)
    ultimately show ?thesis
      using t stage3_small_feasible by blast
  qed
  moreover have "distinct (stage3_precedence stage3_small)"
    using t d by blast
  ultimately show ?thesis
    using d l stage3_small_feasible by blast
qed


subsection \<open>Stage 2: the sequencing loop\<close>

lemma concat_concat_map: "concat (concat (map f xs)) = concat (map (\<lambda>x. concat (f x)) xs)"
  by (induction xs) simp_all

lemma stage2_seq_replicate:
  "stage2_seq jobs n =
     concat [replicate n (stage2_seq_constr n j k).
               j \<leftarrow> map fst jobs, k \<leftarrow> [0 ..< length (route jobs j) - 1]]"
  by (simp add: stage2_seq_def concat_concat_map map_replicate_const comp_def)

lemma sat_stage2_seq_constr_0: "sat v (stage2_seq_constr 0 j k)"
  by (simp add: stage2_seq_constr_def)

lemma set_stage2_seq_once:
  "set (stage2_seq_once jobs n) =
     {stage2_seq_constr n j k | j k. j \<in> set (map fst jobs) \<and> k < length (route jobs j) - 1}"
  unfolding stage2_seq_once_def by fastforce

lemma set_stage2_seq:
  "0 < n \<Longrightarrow> set (stage2_seq jobs n) = set (stage2_seq_once jobs n)"
  unfolding stage2_seq_replicate stage2_seq_once_def by fastforce

lemma stage2_seq_sat_iff:
  "list_all (sat v) (stage2_seq jobs n) \<longleftrightarrow> list_all (sat v) (stage2_seq_once jobs n)"
proof (cases "n = 0")
  case True
  have "stage2_seq jobs 0 = []"
    by (simp add: stage2_seq_def)
  moreover have "list_all (sat v) (stage2_seq_once jobs 0)"
    by (auto simp: list_all_iff set_stage2_seq_once sat_stage2_seq_constr_0)
  ultimately show ?thesis
    using True by simp
next
  case False
  then show ?thesis
    by (simp add: list_all_iff set_stage2_seq)
qed

lemma stage2_build_with_feasible:
  assumes "stage2_build_with seq jobs ms n = Inr M" "stage2_build_with seq' jobs ms n = Inr M'"
    and "list_all (sat v) seq \<longleftrightarrow> list_all (sat v) seq'"
  shows "feasible M v \<longleftrightarrow> feasible M' v" "vars M = vars M'" "objective M = objective M'"
  using assms by (auto simp: stage2_build_with_def feasible_def split: sum.splits)

lemma stage2_build_with_parts:
  assumes "stage2_build_with seq jobs ms n = Inr M"
  shows "vars M = stage2_vars jobs n"
    and "objective M = V Cmax"
    and "constrs M = stage2_assign jobs n @ seq @ stage2_capacity jobs ms n @ stage2_start jobs n
           @ map (\<lambda>j. Constr (V Cmax) GE
                    (Plus (V (S_var j (length (route jobs j) - 1)))
                       (N (of_int (snd (route jobs j ! (length (route jobs j) - 1)))))))
               (map fst jobs)"
proof -
  let ?c = "\<lambda>j. Constr (V Cmax) GE
                    (Plus (V (S_var j (length (route jobs j) - 1)))
                       (N (of_int (snd (route jobs j ! (length (route jobs j) - 1))))))"
  from assms obtain mk where mk: "for_each (stage2_makespan jobs) (map fst jobs) = Inr mk"
    and M: "M = \<lparr> vars = stage2_vars jobs n,
                constrs = stage2_assign jobs n @ seq @ stage2_capacity jobs ms n
                          @ stage2_start jobs n @ mk,
                objective = V Cmax \<rparr>"
    by (auto simp: stage2_build_with_def split: sum.splits)
  have "\<forall>j\<in>set (map fst jobs). \<exists>y. stage2_makespan jobs j = Inr y"
    using mk for_each_Inr_iff[of "stage2_makespan jobs" "map fst jobs"] by blast
  then have ne: "\<forall>j\<in>set (map fst jobs). route jobs j \<noteq> []"
    by (auto simp: stage2_makespan_def split: if_splits)
  have "map Inr mk = map (stage2_makespan jobs) (map fst jobs)"
    by (rule sym) (rule for_each_Inr_map[OF mk])
  also have "\<dots> = map Inr (map ?c (map fst jobs))"
    unfolding map_map
    by (rule map_cong[OF refl]) (use ne in \<open>auto simp: stage2_makespan_def Let_def\<close>)
  finally have "map (Inr :: constr \<Rightarrow> error + constr) mk = map Inr (map ?c (map fst jobs))" .
  then have mk_eq: "mk = map ?c (map fst jobs)"
    by (rule map_injective) (simp add: inj_on_def)
  show "vars M = stage2_vars jobs n" "objective M = V Cmax"
    by (simp_all add: M)
  show "constrs M = stage2_assign jobs n @ seq @ stage2_capacity jobs ms n @ stage2_start jobs n
           @ map ?c (map fst jobs)"
    by (simp add: M mk_eq)
qed

lemma stage2_build_with_succeeds:
  "\<forall>j\<in>set (map fst jobs). route jobs j \<noteq> [] \<Longrightarrow> \<exists>M. stage2_build_with seq jobs ms n = Inr M"
  using stage2_build_with_Inl[of seq jobs ms n]
  by (cases "stage2_build_with seq jobs ms n") auto

lemma stage2_seq_constr_inj:
  assumes "0 < n"
  shows "stage2_seq_constr n j k = stage2_seq_constr n j' k' \<longleftrightarrow> j = j' \<and> k = k'"
proof -
  from assms have "[0..<n] = 0 # [1..<n]"
    by (simp add: upt_conv_Cons)
  then show ?thesis
    by (auto simp: stage2_seq_constr_def)
qed

lemma count_list_replicate: "count_list (replicate n x) y = (if x = y then n else 0)"
  by (induction n) auto

lemma count_stage2_seq:
  assumes dj: "distinct (map fst jobs)" and j: "j \<in> set (map fst jobs)"
    and k: "k < length (route jobs j) - 1"
  shows "count_list (stage2_seq jobs n) (stage2_seq_constr n j k) = n"
proof (cases "n = 0")
  case True
  then show ?thesis by (simp add: stage2_seq_def)
next
  case False
  then have n: "0 < n" by simp
  let ?y = "stage2_seq_constr n j k"
  let ?inner = "\<lambda>j'. concat (map (\<lambda>k'. replicate n (stage2_seq_constr n j' k'))
                         [0..<length (route jobs j') - 1])"
  have seq: "stage2_seq jobs n = concat (map ?inner (map fst jobs))"
    by (simp add: stage2_seq_replicate concat_concat_map comp_def)
  have "count_list (concat (map ?inner (map fst jobs))) ?y = count_list (?inner j) ?y"
    using dj j
    by (intro count_list_concat_single) (auto simp: stage2_seq_constr_inj[OF n])
  also have "\<dots> = count_list (replicate n (stage2_seq_constr n j k)) ?y"
    using k
    by (intro count_list_concat_single) (auto simp: stage2_seq_constr_inj[OF n])
  also have "\<dots> = n"
    by (simp add: count_list_replicate)
  finally show ?thesis
    by (simp add: seq)
qed

lemma stage2_seq_constr_elsewhere:
  "stage2_seq_constr n j k \<notin> set (stage2_assign jobs n')"
  "stage2_seq_constr n j k \<notin> set (stage2_capacity jobs ms n')"
  "stage2_seq_constr n j k \<notin> set (stage2_start jobs n')"
  "stage2_seq_constr n j k \<notin> set (map (\<lambda>j. Constr (V Cmax) GE (f j)) xs)"
  by (auto simp: stage2_seq_constr_def stage2_assign_def stage2_capacity_def stage2_start_def)

lemma count_stage2_model:
  assumes b: "stage2_build jobs ms n = Inr M"
    and dj: "distinct (map fst jobs)" and j: "j \<in> set (map fst jobs)"
    and k: "k < length (route jobs j) - 1"
  shows "count_list (constrs M) (stage2_seq_constr n j k) = n"
  using count_stage2_seq[OF dj j k, of n]
  by (simp only: stage2_build_with_parts(3)[OF b[unfolded stage2_build_def]] count_list_append
      count_notin[OF stage2_seq_constr_elsewhere(1)] count_notin[OF stage2_seq_constr_elsewhere(2)]
      count_notin[OF stage2_seq_constr_elsewhere(3)] count_notin[OF stage2_seq_constr_elsewhere(4)]
      add_0 add_0_right)

lemma sat_stage2_seq_constr:
  "sat v (stage2_seq_constr n j k) \<longleftrightarrow>
     (\<Sum>t<n. real t * v (X_stage j (k + 1) t)) \<ge> (\<Sum>t<n. real (t + 1) * v (X_stage j k t))"
proof -
  have "(\<Sum>t\<leftarrow>[0..<n]. f t) = (\<Sum>t<n. f t)" for f :: "nat \<Rightarrow> real"
    by (simp only: interv_sum_list_conv_sum_set_nat set_upt atLeast0LessThan)
  then show ?thesis
    by (simp add: stage2_seq_constr_def comp_def)
qed


text \<open>
  C10: let \<open>jobs\<close> be a dict with no empty route. Then stage 2 builds a model whose
  constraints are the assignment section, the sequencing section, the capacity section,
  the start-time section and the makespan bounds, in this order. The sequencing section
  is, for each job and each consecutive operation pair, \<open>num_stages\<close> identical copies of
  the one inequality \<open>\<Sum> t' x[j, k + 1, t'] \<ge> \<Sum> (t + 1) x[j, k, t]\<close> (the enclosing stage
  variable does not occur in it), and this inequality occurs in the model exactly
  \<open>num_stages\<close> times. The model that adds the inequality once per pair declares the same
  variables, has the same objective and is satisfied by exactly the same valuations; on
  data with an empty route both builds raise the same exception.
\<close>

theorem stage2_sequencing_copies:
  "distinct (map fst jobs) \<Longrightarrow> \<forall>j\<in>set (map fst jobs). route jobs j \<noteq> [] \<Longrightarrow>
   (\<exists>M M'. stage2_build jobs ms n = Inr M \<and> stage2_build_once jobs ms n = Inr M' \<and>
      constrs M = stage2_assign jobs n @ stage2_seq jobs n @ stage2_capacity jobs ms n
        @ stage2_start jobs n
        @ map (\<lambda>j. Constr (V Cmax) GE
                 (Plus (V (S_var j (length (route jobs j) - 1)))
                    (N (of_int (snd (route jobs j ! (length (route jobs j) - 1)))))))
            (map fst jobs) \<and>
      constrs M' = stage2_assign jobs n @ stage2_seq_once jobs n @ stage2_capacity jobs ms n
        @ stage2_start jobs n
        @ map (\<lambda>j. Constr (V Cmax) GE
                 (Plus (V (S_var j (length (route jobs j) - 1)))
                    (N (of_int (snd (route jobs j ! (length (route jobs j) - 1)))))))
            (map fst jobs) \<and>
      (\<forall>j\<in>set (map fst jobs). \<forall>k. k < length (route jobs j) - 1 \<longrightarrow>
         count_list (constrs M) (stage2_seq_constr n j k) = n) \<and>
      (feasible M v \<longleftrightarrow> feasible M' v) \<and> vars M = vars M' \<and> objective M = objective M') \<and>
   stage2_seq jobs n =
     concat [replicate n (stage2_seq_constr n j k).
               j \<leftarrow> map fst jobs, k \<leftarrow> [0 ..< length (route jobs j) - 1]] \<and>
   stage2_seq_constr n j0 k0 =
     Constr (Quicksum [Times (of_nat t_prime) (V (X_stage j0 (k0 + 1) t_prime)).
                         t_prime \<leftarrow> [0 ..< n]])
            GE
            (Quicksum [Times (of_nat (t + 1)) (V (X_stage j0 k0 t)). t \<leftarrow> [0 ..< n]]) \<and>
   (sat v (stage2_seq_constr n j0 k0) \<longleftrightarrow>
      (\<Sum>t<n. real t * v (X_stage j0 (k0 + 1) t))
        \<ge> (\<Sum>t<n. real (t + 1) * v (X_stage j0 k0 t))) \<and>
   (stage2_build jobs ms n = Inl e \<longleftrightarrow> stage2_build_once jobs ms n = Inl e)"
proof -
  assume dj: "distinct (map fst jobs)" and ne: "\<forall>j\<in>set (map fst jobs). route jobs j \<noteq> []"
  from stage2_build_with_succeeds[OF ne] obtain M M' where
    M: "stage2_build jobs ms n = Inr M" and M': "stage2_build_once jobs ms n = Inr M'"
    unfolding stage2_build_def stage2_build_once_def by blast
  note p = stage2_build_with_parts[OF M[unfolded stage2_build_def]]
  note p' = stage2_build_with_parts[OF M'[unfolded stage2_build_once_def]]
  have model: "\<exists>M M'. stage2_build jobs ms n = Inr M \<and> stage2_build_once jobs ms n = Inr M' \<and>
      constrs M = stage2_assign jobs n @ stage2_seq jobs n @ stage2_capacity jobs ms n
        @ stage2_start jobs n
        @ map (\<lambda>j. Constr (V Cmax) GE
                 (Plus (V (S_var j (length (route jobs j) - 1)))
                    (N (of_int (snd (route jobs j ! (length (route jobs j) - 1)))))))
            (map fst jobs) \<and>
      constrs M' = stage2_assign jobs n @ stage2_seq_once jobs n @ stage2_capacity jobs ms n
        @ stage2_start jobs n
        @ map (\<lambda>j. Constr (V Cmax) GE
                 (Plus (V (S_var j (length (route jobs j) - 1)))
                    (N (of_int (snd (route jobs j ! (length (route jobs j) - 1)))))))
            (map fst jobs) \<and>
      (\<forall>j\<in>set (map fst jobs). \<forall>k. k < length (route jobs j) - 1 \<longrightarrow>
         count_list (constrs M) (stage2_seq_constr n j k) = n) \<and>
      (feasible M v \<longleftrightarrow> feasible M' v) \<and> vars M = vars M' \<and> objective M = objective M'"
  proof (rule exI[of _ M], rule exI[of _ M'], intro conjI ballI allI impI)
    show "stage2_build jobs ms n = Inr M" by (rule M)
    show "stage2_build_once jobs ms n = Inr M'" by (rule M')
    show "constrs M = stage2_assign jobs n @ stage2_seq jobs n @ stage2_capacity jobs ms n
        @ stage2_start jobs n
        @ map (\<lambda>j. Constr (V Cmax) GE
                 (Plus (V (S_var j (length (route jobs j) - 1)))
                    (N (of_int (snd (route jobs j ! (length (route jobs j) - 1)))))))
            (map fst jobs)"
      by (rule p(3))
    show "constrs M' = stage2_assign jobs n @ stage2_seq_once jobs n @ stage2_capacity jobs ms n
        @ stage2_start jobs n
        @ map (\<lambda>j. Constr (V Cmax) GE
                 (Plus (V (S_var j (length (route jobs j) - 1)))
                    (N (of_int (snd (route jobs j ! (length (route jobs j) - 1)))))))
            (map fst jobs)"
      by (rule p'(3))
    show "count_list (constrs M) (stage2_seq_constr n j k) = n"
      if "j \<in> set (map fst jobs)" "k < length (route jobs j) - 1" for j k
      by (rule count_stage2_model[OF M dj that])
    show "feasible M v \<longleftrightarrow> feasible M' v"
      by (rule stage2_build_with_feasible(1)[OF M[unfolded stage2_build_def]
            M'[unfolded stage2_build_once_def] stage2_seq_sat_iff])
    show "vars M = vars M'" by (simp add: p(1) p'(1))
    show "objective M = objective M'" by (simp add: p(2) p'(2))
  qed
  show ?thesis
    apply (intro conjI)
        apply (rule model)
       apply (rule stage2_seq_replicate)
      apply (rule stage2_seq_constr_def)
     apply (rule sat_stage2_seq_constr)
    apply (simp add: stage2_build_def stage2_build_once_def stage2_build_with_Inl)
    done
qed

lemma stage2_routes:
  "route stage2_jobs 1 = [(1, 3), (2, 2)]" "route stage2_jobs 2 = [(2, 2), (1, 1)]"
  "route stage2_jobs 3 = [(1, 2), (2, 1)]" "map fst stage2_jobs = [1, 2, 3]"
  by (simp_all add: stage2_jobs_def route_def)

lemma upt_10: "[0..<10] = [0, 1, 2, 3, 4, 5, 6, 7, 8, 9]"
  by (simp add: upt_rec)

lemma stage2_once_feasible:
  "\<exists>M'. stage2_build_once stage2_jobs stage2_machines stage2_num_stages = Inr M' \<and>
     feasible M' stage2_schedule"
  by (simp add: stage2_build_once_def stage2_build_with_def stage2_makespan_def stage2_routes
      stage2_vars_def stage2_assign_def stage2_seq_once_def stage2_seq_constr_def
      stage2_capacity_def stage2_start_def stage2_machines_def stage2_num_stages_def
      upt_10 enumerate_eq_zip feasible_def stage2_schedule_def upt_rec[of 0 "Suc 0"] upt_rec[of 0 2] upt_rec[of 1 2])


lemma stage2_count_instance:
  "stage2_build stage2_jobs stage2_machines stage2_num_stages = Inr M \<Longrightarrow>
   length (constrs M) = 65"
  by (auto simp: stage2_build_def stage2_build_with_def stage2_makespan_def stage2_routes
      stage2_assign_def stage2_seq_def stage2_capacity_def stage2_start_def
      stage2_machines_def stage2_num_stages_def upt_10 enumerate_eq_zip
      upt_rec[of 0 "Suc 0"] upt_rec[of 0 2] upt_rec[of 1 2])

text \<open>
  C10 on the instance of the script: both models are built, the inequality of job 1's
  first pair occurs 10 times among the 65 constraints, and the valuation above is feasible
  for both models.
\<close>

theorem stage2_sequencing_copies_witness:
  "\<exists>M M'. stage2_build stage2_jobs stage2_machines stage2_num_stages = Inr M \<and>
     stage2_build_once stage2_jobs stage2_machines stage2_num_stages = Inr M' \<and>
     distinct (map fst stage2_jobs) \<and>
     count_list (constrs M) (stage2_seq_constr stage2_num_stages 1 0) = stage2_num_stages \<and>
     length (constrs M) = 65 \<and>
     feasible M' stage2_schedule \<and> feasible M stage2_schedule"
proof -
  have d: "distinct (map fst stage2_jobs)" "\<forall>j\<in>set (map fst stage2_jobs). route stage2_jobs j \<noteq> []"
    by (simp_all add: stage2_routes)
  note t = stage2_sequencing_copies[OF d, of stage2_machines stage2_num_stages
      stage2_schedule 1 0 KeyError, THEN conjunct1]
  from t obtain M M' where M: "stage2_build stage2_jobs stage2_machines stage2_num_stages = Inr M"
    and M': "stage2_build_once stage2_jobs stage2_machines stage2_num_stages = Inr M'"
    and c: "\<forall>j\<in>set (map fst stage2_jobs). \<forall>k. k < length (route stage2_jobs j) - 1 \<longrightarrow>
         count_list (constrs M) (stage2_seq_constr stage2_num_stages j k) = stage2_num_stages"
    and f: "feasible M stage2_schedule \<longleftrightarrow> feasible M' stage2_schedule"
    by (elim exE conjE) (rule that)
  have "(1::int) \<in> set (map fst stage2_jobs)" "(0::nat) < length (route stage2_jobs 1) - 1"
    by (simp_all add: stage2_routes)
  from c[rule_format, OF this]
  have c1: "count_list (constrs M) (stage2_seq_constr stage2_num_stages 1 0) = stage2_num_stages" .
  from stage2_once_feasible M' have f': "feasible M' stage2_schedule"
    by auto
  with f have "feasible M stage2_schedule"
    by simp
  with M M' d(1) c1 f' stage2_count_instance[OF M] show ?thesis
    by blast
qed

subsection \<open>Machine availability\<close>

lemma feasible_sat: "feasible M v \<Longrightarrow> c \<in> set (constrs M) \<Longrightarrow> sat v c"
  by (simp add: feasible_def list_all_iff)

lemma feasible_var_ok: "feasible M v \<Longrightarrow> d \<in> set (vars M) \<Longrightarrow> var_ok v d"
  by (simp add: feasible_def list_all_iff)

lemma route_in: "t < length (route r i) \<Longrightarrow> (i, route r i) \<in> set r"
  by (auto simp: route_def split: option.splits dest: map_of_SomeD)


lemma route_nth_nonneg:
  "nonneg_durations r \<Longrightarrow> t < length (route r i) \<Longrightarrow> 0 \<le> snd (route r i ! t)"
  using route_in[of t r i] nth_mem[of t "route r i"]
  by (cases "route r i ! t") (fastforce simp: nonneg_durations_def)


lemma set_double_loop:
  "c \<in> set [g k m. k \<leftarrow> [0 ..< K], m \<leftarrow> ms] \<longleftrightarrow> (\<exists>k m. k < K \<and> m \<in> set ms \<and> c = g k m)"
  by fastforce

lemma stage4_build_parts:
  assumes "stage4_build r = Inr M"
  shows "vars M = stage4_vars r"
    and "\<exists>jc. constrs M = stage4_theta0 r @ stage4_capacity r @ stage4_once r
           @ stage4_recursion r @ stage4_makespan r @ stage4_precedence r @ stage4_waiting r
           @ concat jc"
    and "objective M = stage4_objective r"
  using assms by (auto simp: stage4_build_def split: sum.splits)

lemma stage4_eta_binary:
  assumes "stage4_build r = Inr M" "feasible M v" "k < stage4_S r" "(i, t) \<in> set (all_ops r)"
  shows "v (Eta k i t) = 0 \<or> v (Eta k i t) = 1"
proof -
  have "Binary (Eta k i t) \<in> set (vars M)"
    using assms(3,4) by (simp add: stage4_build_parts(1)[OF assms(1)] stage4_eta_declared stage4_S_def)
  from feasible_var_ok[OF assms(2) this] show ?thesis by simp
qed


lemma stage4_theta_mono:
  assumes b: "stage4_build r = Inr M" and f: "feasible M v" and nn: "nonneg_durations r"
    and k: "k < stage4_S r" and m: "m \<in> set (routes_machines r)"
  shows "v (Theta k m) \<le> v (Theta (k + 1) m)"
proof -
  let ?terms = "[Times (of_int (snd (route r i ! t))) (V (Eta k i t)).
                        i \<leftarrow> routes_jobs r, t \<leftarrow> [0 ..< length (route r i)],
                        fst (route r i ! t) = m]"
  let ?c = "Constr (V (Theta (k + 1) m)) GE (Plus (V (Theta k m)) (Quicksum ?terms))"
  have "?c \<in> set (stage4_recursion r)"
    unfolding stage4_recursion_def set_double_loop using k m by blast
  then have "?c \<in> set (constrs M)"
    using stage4_build_parts(2)[OF b] by auto
  from feasible_sat[OF f this]
  have le: "v (Theta k m) + eval v (Quicksum ?terms) \<le> v (Theta (k + 1) m)"
    by simp
  have "0 \<le> eval v e" if "e \<in> set ?terms" for e
  proof -
    from that obtain i t where it: "i \<in> set (routes_jobs r)" "t < length (route r i)"
      and e: "e = Times (of_int (snd (route r i ! t))) (V (Eta k i t))"
      by auto
    have "(i, t) \<in> set (all_ops r)"
      using it by (simp add: set_all_ops routes_jobs_def)
    from stage4_eta_binary[OF b f k this] have "0 \<le> v (Eta k i t)" by auto
    moreover have "0 \<le> snd (route r i ! t)"
      using route_nth_nonneg[OF nn it(2)] .
    ultimately show ?thesis
      by (simp add: e)
  qed
  then have "0 \<le> eval v (Quicksum ?terms)"
    unfolding eval.simps by (intro sum_list_nonneg) auto
  with le show ?thesis by simp
qed


lemma stage3_eta_binary:
  assumes "feasible (stage3_build r) v" "k < routes_K r" "(i, t) \<in> set (all_ops r)"
  shows "v (Eta k i t) = 0 \<or> v (Eta k i t) = 1"
proof -
  have "Binary (Eta k i t) \<in> set (vars (stage3_build r))"
    using assms(2,3) by (simp add: stage3_build_def stage3_eta_declared)
  from feasible_var_ok[OF assms(1) this] show ?thesis by simp
qed

lemma stage3_theta_mono:
  assumes f: "feasible (stage3_build r) v" and nn: "nonneg_durations r"
    and k: "k < routes_K r" and m: "m \<in> set (routes_machines r)"
  shows "v (Theta k m) \<le> v (Theta (k + 1) m)"
proof -
  let ?terms = "[Times (snd (route r i ! t)) (V (Eta k i t)).
                        (i, t) \<leftarrow> all_ops r, fst (route r i ! t) = m]"
  let ?c = "Constr (V (Theta (k + 1) m)) GE (Plus (V (Theta k m)) (Quicksum ?terms))"
  have "?c \<in> set (stage3_recursion r)"
    unfolding stage3_recursion_def set_double_loop using k m by blast
  then have "?c \<in> set (constrs (stage3_build r))"
    by (simp add: stage3_build_def)
  from feasible_sat[OF f this]
  have le: "v (Theta k m) + eval v (Quicksum ?terms) \<le> v (Theta (k + 1) m)"
    by simp
  have "0 \<le> eval v e" if "e \<in> set ?terms" for e
  proof -
    from that obtain i t where it: "(i, t) \<in> set (all_ops r)"
      and e: "e = Times (snd (route r i ! t)) (V (Eta k i t))"
      by auto
    from stage3_eta_binary[OF f k it(1)] have "0 \<le> v (Eta k i t)" by auto
    moreover have "0 \<le> snd (route r i ! t)"
      using route_nth_nonneg[OF nn, of t i] it by (simp add: set_all_ops)
    ultimately show ?thesis
      by (simp add: e)
  qed
  then have "0 \<le> eval v (Quicksum ?terms)"
    unfolding eval.simps by (intro sum_list_nonneg) auto
  with le show ?thesis by simp
qed

text \<open>
  C5 holds for Strategy D and for the monotonicity half in Strategy C (lemmas
  \<open>stage4_theta0_forced\<close>, \<open>stage4_theta_mono\<close>, \<open>stage3_theta_mono\<close>), but stage 3
  emits no constraint \<open>\<Theta>[0, m] = 0\<close>: its model only bounds \<open>\<Theta>\<close> below by 0. On the
  small instance the valuation with \<open>\<Theta>[0, 2] = 1\<close> is feasible and even optimal (makespan
  2, and no feasible valuation has a smaller one).
\<close>

theorem stage3_theta0_not_forced:
  "feasible (stage3_build stage3_small) stage3_small_schedule \<and>
   2 \<in> set (routes_machines stage3_small) \<and>
   stage3_small_schedule (Theta 0 2) = 1 \<and>
   eval stage3_small_schedule (objective (stage3_build stage3_small)) = 2 \<and>
   (\<forall>v. \<not> (feasible (stage3_build stage3_small) v \<and>
          eval v (objective (stage3_build stage3_small)) < 2))"
proof -
  have "2 \<le> eval v (objective (stage3_build stage3_small))"
    if "feasible (stage3_build stage3_small) v" for v
    using that by (simp add: feasible_def stage3_small_defs numeral_2_eq_2)
  then have "\<forall>v. \<not> (feasible (stage3_build stage3_small) v \<and>
          eval v (objective (stage3_build stage3_small)) < 2)"
    by (meson not_less)
  then show ?thesis
    using stage3_small_feasible
    by (simp add: stage3_small_machines stage3_small_schedule_def stage3_build_def)
qed


subsection \<open>Stage 4: precedence and the Big-M constant\<close>










































end
